theory Spec2Isabelle
  imports Main "HOL-Library.Word"
begin

section \<open>Batching of the file list\<close>

text \<open>
  The development follows \<^verbatim>\<open>scripts/create_precomputed_volume_v2.py\<close>.
  Exceptions of the Python run are values of \<open>error\<close>; a function that can raise
  returns \<open>error + 'a\<close> with \<open>Inl\<close> for the exception.
\<close>

datatype error = ValueError | IndexError | IOError | WriteError

text \<open>\<^verbatim>\<open>CHUNK_SIZE = 16\<close>\<close>

definition CHUNK_SIZE :: nat where
  "CHUNK_SIZE = 16"

text \<open>
  \<^verbatim>\<open>
  def chunks(l,n):
      for i in range(0,len(l),n):
          yield l[i:i+n]
  \<close>
  The loop variable runs over \<open>0, n, 2n, ...\<close> while it is below \<open>len(l)\<close>; the slice
  \<open>l[i:i+n]\<close> is \<open>take n (drop i l)\<close>. The test \<open>0 < n\<close> of the loop only makes the
  recursion total: \<open>chunks\<close> never enters the loop with another step.
\<close>

function chunks_loop :: "nat \<Rightarrow> 'a list \<Rightarrow> nat \<Rightarrow> 'a list list" where
  "chunks_loop i l n =
     (if i < length l \<and> 0 < n then take n (drop i l) # chunks_loop (i + n) l n else [])"
  by pat_completeness auto
termination
  by (relation "measure (\<lambda>(i, l, n). length l - i)") auto

declare chunks_loop.simps [simp del]

text \<open>
  \<open>range(0, len(l), 0)\<close> raises ValueError; a negative step from 0 towards a
  non-negative stop is the empty range.
\<close>

definition chunks :: "'a list \<Rightarrow> int \<Rightarrow> error + 'a list list" where
  "chunks l n =
     (if n = 0 then Inl ValueError
      else if n < 0 then Inr []
      else Inr (chunks_loop 0 l (nat n)))"

text \<open>\<open>enumerate(xs)\<close> pairs every element with its position, from 0.\<close>

definition enumerate_list :: "'a list \<Rightarrow> (nat \<times> 'a) list" where
  "enumerate_list xs = zip [0..<length xs] xs"

text \<open>
  Lines 83-84 of \<open>upload_image_to_volume\<close>, for the batch \<open>f\<close> at position \<open>i\<close>:
  \<^verbatim>\<open>
  start = i*CHUNK_SIZE
  end = start + len(f)
  \<close>
\<close>

definition depth_range :: "nat \<Rightarrow> 'a list \<Rightarrow> nat \<times> nat" where
  "depth_range i f = (i * CHUNK_SIZE, i * CHUNK_SIZE + length f)"

section \<open>Arrays\<close>

text \<open>
  A numpy array is its shape and its samples, read by a full index (one position per
  axis); the type of the samples is the dtype of the array. The block of a batch is
  allocated with \<open>dtype='uint16'\<close>, so its samples are 16-bit words. Only positions inside
  the shape carry meaning.
\<close>

type_synonym sample = "16 word"

record 'a ndarray =
  shape :: "nat list"
  elem :: "nat list \<Rightarrow> 'a"

definition in_bounds :: "nat list \<Rightarrow> nat list \<Rightarrow> bool" where
  "in_bounds shp idx = list_all2 (<) idx shp"

text \<open>\<open>np.zeros(shp, dtype='uint16')\<close>\<close>

definition np_zeros :: "nat list \<Rightarrow> sample ndarray" where
  "np_zeros shp = \<lparr>shape = shp, elem = (\<lambda>idx. 0)\<rparr>"

text \<open>
  \<open>np.squeeze(a)\<close> drops every axis of length 1; a sample of the result is the sample
  of \<open>a\<close> at the index with 0 put back at the dropped axes.
\<close>

fun unsqueeze_index :: "nat list \<Rightarrow> nat list \<Rightarrow> nat list" where
  "unsqueeze_index [] idx = []"
| "unsqueeze_index (d # ds) idx =
     (if d = 1 then 0 # unsqueeze_index ds idx
      else (case idx of [] \<Rightarrow> [] | i # rest \<Rightarrow> i # unsqueeze_index ds rest))"

definition np_squeeze :: "'a ndarray \<Rightarrow> 'a ndarray" where
  "np_squeeze a =
     \<lparr>shape = filter (\<lambda>d. d \<noteq> 1) (shape a),
      elem = (\<lambda>idx. elem a (unsqueeze_index (shape a) idx))\<rparr>"

text \<open>\<open>a.T\<close> reverses the order of the axes.\<close>

definition np_transpose :: "'a ndarray \<Rightarrow> 'a ndarray" where
  "np_transpose a = \<lparr>shape = rev (shape a), elem = (\<lambda>idx. elem a (rev idx))\<rparr>"

text \<open>
  Storing an array into an array of another dtype converts every sample; \<open>astype\<close> is that
  conversion for a given conversion of one sample. The shape stays.
\<close>

definition astype :: "('s \<Rightarrow> 'a) \<Rightarrow> 's ndarray \<Rightarrow> 'a ndarray" where
  "astype cast a = \<lparr>shape = shape a, elem = (\<lambda>idx. cast (elem a idx))\<rparr>"

text \<open>
  Assignment into a view of shape \<open>ts\<close> broadcasts the value: the value's axes are
  aligned with the last axes of the view, each must have the view's length or length 1,
  and axes the value has beyond those of the view must all have length 1. Otherwise numpy
  raises ValueError (could not broadcast input array).
\<close>

definition broadcastable :: "nat list \<Rightarrow> nat list \<Rightarrow> bool" where
  "broadcastable vs ts =
     (list_all (\<lambda>d. d = 1) (take (length vs - length ts) vs)
      \<and> list_all (\<lambda>(v, t). v = t \<or> v = 1) (zip (rev vs) (rev ts)))"

text \<open>The index in the value of shape \<open>vs\<close> that is copied to the index \<open>tidx\<close> of the view.\<close>

definition broadcast_index :: "nat list \<Rightarrow> nat list \<Rightarrow> nat list" where
  "broadcast_index vs tidx =
     (let core = drop (length vs - length tidx) vs;
          aligned = drop (length tidx - length core) tidx
      in replicate (length vs - length tidx) 0
         @ map (\<lambda>(v, i). if v = 1 then 0 else i) (zip core aligned))"

text \<open>
  \<open>out_array[:,:,z_idx] = value\<close>, for a value already converted to the dtype of
  \<open>out_array\<close>. The array needs at least three axes. The index on
  the third axis counts from the end when negative and raises IndexError out of range. The
  view has the shape of \<open>out_array\<close> without its third axis; a value that does not
  broadcast to it raises ValueError and nothing is stored.
\<close>

definition setitem_depth :: "'a ndarray \<Rightarrow> int \<Rightarrow> 'a ndarray \<Rightarrow> error + 'a ndarray" where
  "setitem_depth out_array z_idx val =
     (case shape out_array of
        X # Y # Z # more_axes \<Rightarrow>
          if z_idx < - int Z \<or> int Z \<le> z_idx then Inl IndexError
          else if \<not> broadcastable (shape val) (X # Y # more_axes) then Inl ValueError
          else
            let k = nat (if z_idx < 0 then z_idx + int Z else z_idx)
            in Inr (out_array\<lparr>elem :=
                 (\<lambda>idx. case idx of
                    x # y # z # others \<Rightarrow>
                      if z = k \<and> in_bounds (X # Y # more_axes) (x # y # others)
                      then elem val (broadcast_index (shape val) (x # y # others))
                      else elem out_array idx
                  | _ \<Rightarrow> elem out_array idx)\<rparr>)
      | _ \<Rightarrow> Inl IndexError)"

section \<open>The libraries the script calls\<close>

text \<open>
  The script imports PIL, tinybrain and CloudVolume; their code is not part of the
  repository. What they return is a parameter of the model:
  \<^item> \<open>image_open path\<close> is \<open>np.asarray(Image.open(path))\<close>, the decoded file or the
    exception it raises; its samples have the dtype of the file, the type \<open>'s\<close>;
  \<^item> \<open>as_uint16\<close> is numpy's conversion of one such sample when it is stored into an
    array of dtype \<open>uint16\<close>;
  \<^item> \<open>average_pooling_2x2 block num_mips\<close> is
    \<open>tinybrain.accelerated.average_pooling_2x2(block, num_mips)\<close>, a list of arrays or
    an exception;
  \<^item> \<open>store_accepts w\<close> tells whether CloudVolume completes the box write \<open>w\<close>
    (otherwise the assignment raises);
  \<^item> \<open>create_new_info\<close> and \<open>add_scale\<close> are CloudVolume's functions of these names,
    building the info of which the script later reads the list of scales and the size of
    each scale;
  \<^item> \<open>stored_info path\<close> is the info CloudVolume loads when a volume is opened by path.
  Constructing a CloudVolume object is taken to return.
\<close>

datatype slice = Full | Range nat nat

record box_write =
  w_level :: nat
  w_box :: "slice \<times> slice \<times> slice"
  w_data :: "sample ndarray"

record scale =
  scale_size :: "nat list"

record 'v new_info_args =
  num_channels :: nat
  layer_type :: string
  data_type :: string
  encoding :: string
  resolution :: 'v
  voxel_offset :: "int list"
  chunk_size :: "nat list"
  volume_size :: "nat list"

record ('v, 's) library =
  image_open :: "string \<Rightarrow> error + 's ndarray"
  as_uint16 :: "'s \<Rightarrow> sample"
  average_pooling_2x2 :: "sample ndarray \<Rightarrow> nat \<Rightarrow> error + sample ndarray list"
  store_accepts :: "box_write \<Rightarrow> bool"
  create_new_info :: "'v new_info_args \<Rightarrow> scale list"
  add_scale :: "scale list \<Rightarrow> nat \<times> nat \<times> nat \<Rightarrow> scale list"
  stored_info :: "string \<Rightarrow> scale list"

text \<open>A CloudVolume object: where it points, the level it reads and writes, its info.\<close>

record cloud_volume =
  layer_cloudpath :: string
  mip :: nat
  info :: "scale list"

text \<open>The calls that reach the store, in the order the run makes them.\<close>

datatype 'v event =
    NewInfo "'v new_info_args"
  | AddScale "nat \<times> nat \<times> nat"
  | CommitInfo
  | BoxWrite box_write

section \<open>The functions of the script\<close>

text \<open>
  \<^verbatim>\<open>
  def create_cloud_volume(precomputed_path,img_size,voxel_size,num_hierarchy_levels=6,parallel=True):
      info = CloudVolume.create_new_info(num_channels = 1, layer_type = 'image',
          data_type = 'uint16', encoding = 'raw', resolution = voxel_size,
          voxel_offset = [0, 0, 0],
          chunk_size = [ CHUNK_SIZE*8, CHUNK_SIZE*8, CHUNK_SIZE ],
          volume_size = img_size)
      vol = CloudVolume(precomputed_path,info=info,parallel=parallel)
      [vol.add_scale((2**i,2**i,1)) for i in range(num_hierarchy_levels)]
      vol.commit_info()
      return vol
  \<close>
  The constructor is called without \<open>mip\<close>, whose default is 0. The result is the volume
  together with the calls made on the way.
\<close>

definition info_args :: "nat list \<Rightarrow> 'v \<Rightarrow> 'v new_info_args" where
  "info_args img_size voxel_size =
     \<lparr>num_channels = 1, layer_type = ''image'', data_type = ''uint16'', encoding = ''raw'',
      resolution = voxel_size, voxel_offset = [0, 0, 0],
      chunk_size = [CHUNK_SIZE * 8, CHUNK_SIZE * 8, CHUNK_SIZE],
      volume_size = img_size\<rparr>"

definition scale_factors :: "nat \<Rightarrow> (nat \<times> nat \<times> nat) list" where
  "scale_factors num_hierarchy_levels = map (\<lambda>i. (2 ^ i, 2 ^ i, 1)) [0..<num_hierarchy_levels]"

definition create_cloud_volume ::
  "('v, 's) library \<Rightarrow> string \<Rightarrow> nat list \<Rightarrow> 'v \<Rightarrow> nat \<Rightarrow> 'v event list \<times> cloud_volume" where
  "create_cloud_volume lib precomputed_path img_size voxel_size num_hierarchy_levels =
     (let args = info_args img_size voxel_size;
          info0 = create_new_info lib args;
          factors = scale_factors num_hierarchy_levels
      in (NewInfo args # map AddScale factors @ [CommitInfo],
          \<lparr>layer_cloudpath = precomputed_path, mip = 0,
           info = foldl (add_scale lib) info0 factors\<rparr>))"

text \<open>
  \<^verbatim>\<open>
  def get_vol_at_mip(precomputed_path, mip, parallel=True):
      return CloudVolume(precomputed_path,mip=mip,parallel=parallel)
  \<close>
\<close>

definition get_vol_at_mip :: "('v, 's) library \<Rightarrow> string \<Rightarrow> nat \<Rightarrow> cloud_volume" where
  "get_vol_at_mip lib precomputed_path m =
     \<lparr>layer_cloudpath = precomputed_path, mip = m, info = stored_info lib precomputed_path\<rparr>"

text \<open>
  \<^verbatim>\<open>
  def load_image(path_to_file,transpose=True):
      image = np.squeeze(np.asarray(Image.open(path_to_file)))
      if transpose:
          return image.T
      return image
  \<close>
\<close>

definition load_image :: "('v, 's) library \<Rightarrow> string \<Rightarrow> bool \<Rightarrow> error + 's ndarray" where
  "load_image lib path_to_file transpose_flag =
     (case image_open lib path_to_file of
        Inl e \<Rightarrow> Inl e
      | Inr raw \<Rightarrow>
          let image = np_squeeze raw
          in if transpose_flag then Inr (np_transpose image) else Inr image)"

text \<open>
  \<^verbatim>\<open>
  def load_image_to_array(path_to_file,out_array,z_idx,transpose=True):
      image = np.squeeze(np.asarray(Image.open(path_to_file)))
      if transpose:
          out_array[:,:,z_idx] = image.T
      else:
          out_array[:,:,z_idx] = image
  \<close>
  The function mutates \<open>out_array\<close>; the model returns the array after the call. The
  image keeps the dtype of the file until the assignment converts its samples.
  The parameter \<open>transpose\<close> is written \<open>transpose_flag\<close>.
\<close>

definition load_image_to_array ::
  "('v, 's) library \<Rightarrow> string \<Rightarrow> sample ndarray \<Rightarrow> int \<Rightarrow> bool
     \<Rightarrow> error + sample ndarray" where
  "load_image_to_array lib path_to_file out_array z_idx transpose_flag =
     (case image_open lib path_to_file of
        Inl e \<Rightarrow> Inl e
      | Inr raw \<Rightarrow>
          let image = np_squeeze raw
          in if transpose_flag
             then setitem_depth out_array z_idx (astype (as_uint16 lib) (np_transpose image))
             else setitem_depth out_array z_idx (astype (as_uint16 lib) image))"

text \<open>
  \<^verbatim>\<open>
  def get_image_dims(files):
      img = load_image(files[0])
      z_size = len(files)
      x_size,y_size = img.shape
      return [x_size,y_size,z_size]
  \<close>
  \<open>files[0]\<close> raises IndexError on the empty list; unpacking a shape that has not exactly
  two entries raises ValueError.
\<close>

definition get_image_dims :: "('v, 's) library \<Rightarrow> string list \<Rightarrow> error + nat list" where
  "get_image_dims lib files =
     (case files of
        [] \<Rightarrow> Inl IndexError
      | first # _ \<Rightarrow>
          (case load_image lib first True of
             Inl e \<Rightarrow> Inl e
           | Inr img \<Rightarrow>
               (case shape img of
                  [x_size, y_size] \<Rightarrow> Inr [x_size, y_size, length files]
                | _ \<Rightarrow> Inl ValueError)))"

text \<open>
  A box assignment \<open>v[:,:,start:end] = data\<close> on a CloudVolume object goes to the level
  the object was opened at.
\<close>

definition setitem_volume ::
  "('v, 's) library \<Rightarrow> cloud_volume \<Rightarrow> slice \<times> slice \<times> slice \<Rightarrow> sample ndarray
     \<Rightarrow> error + box_write" where
  "setitem_volume lib v box data =
     (let w = \<lparr>w_level = mip v, w_box = box, w_data = data\<rparr>
      in if store_accepts lib w then Inr w else Inl WriteError)"

text \<open>
  The body of the loop of \<open>upload_image_to_volume\<close>, for the batch \<open>f\<close> at position \<open>i\<close>:
  \<^verbatim>\<open>
  tmp_chunk = np.zeros((size[0],size[1],len(f)),dtype='uint16',order='F')
  Parallel(n_jobs=len(f),require='sharedmem')(
      delayed(load_image_to_array)(img,tmp_chunk,idx) for idx,img in enumerate(f))
  img_pyramid = tinybrain.accelerated.average_pooling_2x2(tmp_chunk, num_mips)
  start = i*CHUNK_SIZE
  end = start + len(f)
  vol[:,:,start:end]=tmp_chunk
  for j in range(num_mips-1):
      vols[j+1][:,:,start:end] = img_pyramid[j]
  \<close>
  The workers of \<open>Parallel\<close> are run one after the other, in the order of the batch (two
  workers that both return commute, see \<open>load_image_to_array_commute\<close>); an exception in a
  worker is the exception of the call. \<open>fill_chunk\<close> is the allocation and the loading
  of the block. The result of a batch is the list of the writes that completed and the
  exception that ended it, if any.
\<close>

definition alloc_chunk :: "nat list \<Rightarrow> nat \<Rightarrow> error + sample ndarray" where
  "alloc_chunk size_xyz depth =
     (case size_xyz of
        x # y # _ \<Rightarrow> Inr (np_zeros [x, y, depth])
      | _ \<Rightarrow> Inl IndexError)"

fun load_batch ::
  "('v, 's) library \<Rightarrow> sample ndarray \<Rightarrow> (nat \<times> string) list \<Rightarrow> error + sample ndarray" where
  "load_batch lib tmp_chunk [] = Inr tmp_chunk"
| "load_batch lib tmp_chunk ((idx, img) # rest) =
     (case load_image_to_array lib img tmp_chunk (int idx) True of
        Inl e \<Rightarrow> Inl e
      | Inr tmp_chunk' \<Rightarrow> load_batch lib tmp_chunk' rest)"

fun write_pyramid ::
  "('v, 's) library \<Rightarrow> cloud_volume list \<Rightarrow> sample ndarray list \<Rightarrow> nat \<Rightarrow> nat \<Rightarrow> nat list
     \<Rightarrow> box_write list \<times> error option" where
  "write_pyramid lib vols img_pyramid start end [] = ([], None)"
| "write_pyramid lib vols img_pyramid start end (j # js) =
     (if length img_pyramid \<le> j \<or> length vols \<le> j + 1 then ([], Some IndexError)
      else (case setitem_volume lib (vols ! (j + 1)) (Full, Full, Range start end)
                   (img_pyramid ! j) of
              Inl e \<Rightarrow> ([], Some e)
            | Inr w \<Rightarrow>
                (case write_pyramid lib vols img_pyramid start end js of
                   (ws, r) \<Rightarrow> (w # ws, r))))"

definition fill_chunk ::
  "('v, 's) library \<Rightarrow> nat list \<Rightarrow> string list \<Rightarrow> error + sample ndarray" where
  "fill_chunk lib size_xyz f =
     (case alloc_chunk size_xyz (length f) of
        Inl e \<Rightarrow> Inl e
      | Inr zeros \<Rightarrow> load_batch lib zeros (enumerate_list f))"

definition upload_batch ::
  "('v, 's) library \<Rightarrow> cloud_volume \<Rightarrow> cloud_volume list \<Rightarrow> nat list \<Rightarrow> nat \<Rightarrow> nat \<Rightarrow> string list
     \<Rightarrow> box_write list \<times> error option" where
  "upload_batch lib vol vols size_xyz num_mips i f =
     (case fill_chunk lib size_xyz f of
        Inl e \<Rightarrow> ([], Some e)
      | Inr tmp_chunk \<Rightarrow>
     (case average_pooling_2x2 lib tmp_chunk num_mips of
        Inl e \<Rightarrow> ([], Some e)
      | Inr img_pyramid \<Rightarrow>
     (case depth_range i f of
        (start, end) \<Rightarrow>
     (case setitem_volume lib vol (Full, Full, Range start end) tmp_chunk of
        Inl e \<Rightarrow> ([], Some e)
      | Inr w \<Rightarrow>
     (case write_pyramid lib vols img_pyramid start end [0..<num_mips - 1] of
        (ws, r) \<Rightarrow> (w # ws, r))))))"

text \<open>The loop over the enumerated batches: the first exception ends the run.\<close>

fun upload_loop ::
  "('v, 's) library \<Rightarrow> cloud_volume \<Rightarrow> cloud_volume list \<Rightarrow> nat list \<Rightarrow> nat
     \<Rightarrow> (nat \<times> string list) list \<Rightarrow> box_write list \<times> error option" where
  "upload_loop lib vol vols size_xyz num_mips [] = ([], None)"
| "upload_loop lib vol vols size_xyz num_mips ((i, f) # rest) =
     (case upload_batch lib vol vols size_xyz num_mips i f of
        (ws, Some e) \<Rightarrow> (ws, Some e)
      | (ws, None) \<Rightarrow>
          (case upload_loop lib vol vols size_xyz num_mips rest of
             (ws', r) \<Rightarrow> (ws @ ws', r)))"

text \<open>
  \<^verbatim>\<open>
  def upload_image_to_volume(vol,files):
      size = vol.info['scales'][0]['size']
      num_mips = len(vol.info['scales'])
      vols = [get_vol_at_mip(vol.layer_cloudpath,i,parallel=True) for i in range(num_mips)]
      for i,f in tqdm(enumerate(chunks(files,CHUNK_SIZE)),total=int(len(files)/CHUNK_SIZE)+1):
          ...
  \<close>
\<close>

definition upload_image_to_volume ::
  "('v, 's) library \<Rightarrow> cloud_volume \<Rightarrow> string list \<Rightarrow> box_write list \<times> error option" where
  "upload_image_to_volume lib vol files =
     (case info vol of
        [] \<Rightarrow> ([], Some IndexError)
      | scale0 # _ \<Rightarrow>
          let size_xyz = scale_size scale0;
              num_mips = length (info vol);
              vols = map (get_vol_at_mip lib (layer_cloudpath vol)) [0..<num_mips]
          in (case chunks files (int CHUNK_SIZE) of
                Inl e \<Rightarrow> ([], Some e)
              | Inr batches \<Rightarrow>
                  upload_loop lib vol vols size_xyz num_mips (enumerate_list batches)))"

text \<open>
  \<open>main\<close> after argument parsing: \<open>files\<close> is the sorted result of the glob and
  \<open>voxel_dims\<close> what \<open>get_voxel_dims\<close> returns or raises for the XML file.
  \<^verbatim>\<open>
  img_size = get_image_dims(files)
  voxel_size = get_voxel_dims(args.input_xml)
  vol = create_cloud_volume(args.precomputed_path,img_size,voxel_size)
  upload_image_to_volume(vol,files)
  \<close>
\<close>

definition main ::
  "('v, 's) library \<Rightarrow> string list \<Rightarrow> error + 'v \<Rightarrow> string \<Rightarrow> 'v event list \<times> error option" where
  "main lib files voxel_dims precomputed_path =
     (case get_image_dims lib files of
        Inl e \<Rightarrow> ([], Some e)
      | Inr img_size \<Rightarrow>
     (case voxel_dims of
        Inl e \<Rightarrow> ([], Some e)
      | Inr voxel_size \<Rightarrow>
     (case create_cloud_volume lib precomputed_path img_size voxel_size 6 of
        (schema_calls, vol) \<Rightarrow>
     (case upload_image_to_volume lib vol files of
        (ws, r) \<Rightarrow> (schema_calls @ map BoxWrite ws, r)))))"

section \<open>What a write of the upload loop should be\<close>

text \<open>
  The write number \<open>j\<close> of the batch \<open>f\<close> at position \<open>i\<close>: it goes to level \<open>j\<close>
  (the level of \<open>vol\<close> for the first one), covers all of X and Y and the depth range
  \<open>[i * CHUNK_SIZE, i * CHUNK_SIZE + len(f))\<close>, and carries the loaded block for
  \<open>j = 0\<close> and entry \<open>j - 1\<close> of the pyramid of that block otherwise.
\<close>

definition level_write_ok ::
  "('v, 's) library \<Rightarrow> cloud_volume \<Rightarrow> nat list \<Rightarrow> nat \<Rightarrow> nat \<Rightarrow> string list \<Rightarrow> nat \<Rightarrow> box_write
     \<Rightarrow> bool" where
  "level_write_ok lib vol size_xyz num_mips i f j w =
     (w_level w = (if j = 0 then mip vol else j)
      \<and> w_box w = (Full, Full, Range (i * CHUNK_SIZE) (i * CHUNK_SIZE + length f))
      \<and> (case fill_chunk lib size_xyz f of
            Inl e \<Rightarrow> False
          | Inr tmp_chunk \<Rightarrow>
              (case average_pooling_2x2 lib tmp_chunk num_mips of
                 Inl e \<Rightarrow> False
               | Inr img_pyramid \<Rightarrow>
                   if j = 0 then w_data w = tmp_chunk
                   else j - 1 < length img_pyramid \<and> w_data w = img_pyramid ! (j - 1))))"

text \<open>
  Two readings of "the slice of this file can be loaded" for a block of the declared size
  \<open>size_xyz\<close>. \<open>slice_matches\<close>: the file opens and its squeezed, transposed array has
  exactly the declared X and Y extents. \<open>slice_fits\<close>: the file opens and that array
  broadcasts to the declared X and Y extents, which is what the slice assignment checks.
\<close>

definition slice_matches :: "('v, 's) library \<Rightarrow> nat list \<Rightarrow> string \<Rightarrow> bool" where
  "slice_matches lib size_xyz path =
     (case image_open lib path of
        Inl e \<Rightarrow> False
      | Inr raw \<Rightarrow> shape (np_transpose (np_squeeze raw)) = take 2 size_xyz)"

definition slice_fits :: "('v, 's) library \<Rightarrow> nat list \<Rightarrow> string \<Rightarrow> bool" where
  "slice_fits lib size_xyz path =
     (case image_open lib path of
        Inl e \<Rightarrow> False
      | Inr raw \<Rightarrow> broadcastable (shape (np_transpose (np_squeeze raw))) (take 2 size_xyz))"

section \<open>A stand-in library for closed examples\<close>

text \<open>
  The examples below run the script on a small library. Files decode to arrays of natural
  numbers, converted to 16 bits when stored: eight by eight images with distinct samples,
  \<open>row.tif\<close> of one row of eight samples (shape \<open>(1, 8)\<close>), \<open>deep.tif\<close> of shape
  \<open>(8, 9, 1)\<close>, \<open>thin.tif\<close> of shape \<open>(1, 5, 1)\<close>, and \<open>missing.tif\<close> that cannot be
  opened. The pooling raises ValueError for a block whose smaller X or Y extent is at most
  \<open>2 ^ num_mips\<close>, as tinybrain does, and otherwise returns \<open>num_mips\<close> blocks, block
  \<open>j\<close> with the X and Y extents divided \<open>j + 1\<close> times by two (rounded up) and the
  depth kept. The samples of these blocks only stand in for the averages (each is the first
  sample of its neighbourhood): no example reads them. The store accepts every write, and
  the info has the scale of the volume only.
\<close>

definition stub_image :: "nat ndarray" where
  "stub_image =
     \<lparr>shape = [8, 8],
      elem = (\<lambda>idx. case idx of [r, c] \<Rightarrow> 10 * r + c + 1 | _ \<Rightarrow> 0)\<rparr>"

definition row_image :: "nat ndarray" where
  "row_image =
     \<lparr>shape = [1, 8],
      elem = (\<lambda>idx. case idx of [r, c] \<Rightarrow> c + 5 | _ \<Rightarrow> 0)\<rparr>"

definition deep_image :: "nat ndarray" where
  "deep_image =
     \<lparr>shape = [8, 9, 1],
      elem = (\<lambda>idx. case idx of [r, c, d] \<Rightarrow> 10 * r + c + 1 | _ \<Rightarrow> 0)\<rparr>"

definition thin_image :: "nat ndarray" where
  "thin_image =
     \<lparr>shape = [1, 5, 1],
      elem = (\<lambda>idx. case idx of [r, c, d] \<Rightarrow> c + 1 | _ \<Rightarrow> 0)\<rparr>"

definition stub_pooled :: "sample ndarray \<Rightarrow> nat \<Rightarrow> sample ndarray" where
  "stub_pooled block m =
     (case shape block of
        x # y # depth_axes \<Rightarrow>
          \<lparr>shape = (x + 2 ^ m - 1) div 2 ^ m # (y + 2 ^ m - 1) div 2 ^ m # depth_axes,
           elem = (\<lambda>idx. case idx of
                     a # b # others \<Rightarrow> elem block (a * 2 ^ m # b * 2 ^ m # others)
                   | _ \<Rightarrow> 0)\<rparr>
      | _ \<Rightarrow> block)"

definition stub_library :: "(unit, nat) library" where
  "stub_library =
     \<lparr>image_open = (\<lambda>path. if path = ''missing.tif'' then Inl IOError
                          else if path = ''row.tif'' then Inr row_image
                          else if path = ''deep.tif'' then Inr deep_image
                          else if path = ''thin.tif'' then Inr thin_image
                          else Inr stub_image),
      as_uint16 = of_nat,
      average_pooling_2x2 =
        (\<lambda>block num_mips.
           case shape block of
             x # y # depth_axes \<Rightarrow>
               if min x y \<le> 2 ^ num_mips then Inl ValueError
               else Inr (map (\<lambda>j. stub_pooled block (Suc j)) [0..<num_mips])
           | _ \<Rightarrow> Inl ValueError),
      store_accepts = (\<lambda>w. True),
      create_new_info = (\<lambda>args. [\<lparr>scale_size = volume_size args\<rparr>]),
      add_scale = (\<lambda>scales factor. scales),
      stored_info = (\<lambda>path. [])\<rparr>"

text \<open>A volume of two levels for slices of eight by eight samples and \<open>z\<close> files.\<close>

definition stub_volume :: "nat \<Rightarrow> cloud_volume" where
  "stub_volume z =
     \<lparr>layer_cloudpath = ''vol'', mip = 0,
      info = [\<lparr>scale_size = [8, 8, z]\<rparr>, \<lparr>scale_size = [4, 4, z]\<rparr>]\<rparr>"

section \<open>Facts about the batching loop\<close>

lemma chunks_loop_concat: "0 < n \<Longrightarrow> concat (chunks_loop i l n) = drop i l"
proof (induction i l n rule: chunks_loop.induct)
  case (1 i l n)
  show ?case
  proof (cases "i < length l")
    case True
    have "concat (chunks_loop i l n) = take n (drop i l) @ concat (chunks_loop (i + n) l n)"
      using True "1.prems" by (subst chunks_loop.simps) simp
    also have "\<dots> = take n (drop i l) @ drop (i + n) l"
      using "1.IH" True "1.prems" by simp
    also have "\<dots> = drop i l"
      by (metis add.commute append_take_drop_id drop_drop)
    finally show ?thesis .
  next
    case False
    then show ?thesis by (subst chunks_loop.simps) simp
  qed
qed

lemma ceil_div_step:
  fixes m n :: nat
  assumes "0 < n" "0 < m"
  shows "Suc ((m - n + n - 1) div n) = (m + n - 1) div n"
proof (cases "n \<le> m")
  case True
  obtain k where k: "m = Suc k" using assms by (cases m) auto
  have a: "m - n + n - 1 = k" using True k by simp
  have b: "m + n - 1 = k + n" using k by simp
  show ?thesis unfolding a b using assms by (simp add: div_add_self2)
next
  case False
  then have "(m - n + n - 1) div n = 0" using assms by simp
  moreover have "(m + n - 1) div n = 1" using False assms by (simp add: div_nat_eqI)
  ultimately show ?thesis by simp
qed

lemma chunks_loop_length:
  "0 < n \<Longrightarrow> length (chunks_loop i l n) = (length l - i + n - 1) div n"
proof (induction i l n rule: chunks_loop.induct)
  case (1 i l n)
  show ?case
  proof (cases "i < length l")
    case True
    have "length (chunks_loop i l n) = Suc (length (chunks_loop (i + n) l n))"
      using True "1.prems" by (subst chunks_loop.simps) simp
    also have "\<dots> = Suc ((length l - (i + n) + n - 1) div n)"
      using "1.IH" True "1.prems" by simp
    also have "\<dots> = Suc ((length l - i - n + n - 1) div n)"
      by simp
    also have "\<dots> = (length l - i + n - 1) div n"
      using ceil_div_step [of n "length l - i"] True "1.prems" by simp
    finally show ?thesis .
  next
    case False
    then show ?thesis using "1.prems" by (subst chunks_loop.simps) simp
  qed
qed

lemma chunks_loop_nth:
  "0 < n \<Longrightarrow> k < length (chunks_loop i l n) \<Longrightarrow>
     chunks_loop i l n ! k = take n (drop (i + k * n) l)"
proof (induction i l n arbitrary: k rule: chunks_loop.induct)
  case (1 i l n)
  show ?case
  proof (cases "i < length l")
    case True
    have unfold: "chunks_loop i l n = take n (drop i l) # chunks_loop (i + n) l n"
      using True "1.prems"(1) by (subst chunks_loop.simps) simp
    show ?thesis
    proof (cases k)
      case 0
      then show ?thesis using unfold by simp
    next
      case (Suc k')
      then have "k' < length (chunks_loop (i + n) l n)"
        using "1.prems"(2) unfold by simp
      then have "chunks_loop (i + n) l n ! k' = take n (drop (i + n + k' * n) l)"
        using "1.IH" True "1.prems"(1) by simp
      then show ?thesis using unfold Suc by (simp add: add.assoc)
    qed
  next
    case False
    then have "chunks_loop i l n = []" by (subst chunks_loop.simps) simp
    then show ?thesis using "1.prems"(2) by simp
  qed
qed

lemma chunks_CHUNK_SIZE:
  "chunks files (int CHUNK_SIZE) = Inr (chunks_loop 0 files 16)"
  by (simp add: chunks_def CHUNK_SIZE_def)

lemma batch_count: "length (chunks_loop 0 files 16) = (length files + 15) div 16"
  by (simp add: chunks_loop_length)

lemma batch_index_in_range:
  assumes "k < length (chunks_loop 0 files 16)"
  shows "16 * k < length files"
proof -
  have "k < (length files + 15) div 16" using assms by (simp add: batch_count)
  then show ?thesis by arith
qed

lemma batch_nth:
  assumes "k < length (chunks_loop 0 files 16)"
  shows "chunks_loop 0 files 16 ! k = take 16 (drop (16 * k) files)"
  using chunks_loop_nth [of 16 k 0 files] assms by (simp add: mult.commute)

lemma batch_length:
  assumes "k < length (chunks_loop 0 files 16)"
  shows "length (chunks_loop 0 files 16 ! k) = min 16 (length files - 16 * k)"
  using batch_nth [OF assms] by simp

lemma batch_full:
  assumes "Suc k < length (chunks_loop 0 files 16)"
  shows "length (chunks_loop 0 files 16 ! k) = 16"
proof -
  have "16 * Suc k < length files" using batch_index_in_range [OF assms] .
  moreover have "k < length (chunks_loop 0 files 16)" using assms by simp
  ultimately show ?thesis by (simp add: batch_length)
qed

lemma batch_last_index:
  assumes "k < length (chunks_loop 0 files 16)"
  shows "length files \<le> 16 * k + 16 \<longleftrightarrow> Suc k = length (chunks_loop 0 files 16)"
proof -
  have "k < (length files + 15) div 16" using assms by (simp add: batch_count)
  then show ?thesis unfolding batch_count by arith
qed

lemma batch_depth_range:
  assumes "k < length (chunks_loop 0 files 16)"
  shows "depth_range k (chunks_loop 0 files 16 ! k)
       = (16 * k, min (length files) (16 * k + 16))"
proof -
  have "k * 16 + length (chunks_loop 0 files 16 ! k) = min (length files) (16 * k + 16)"
    using batch_index_in_range [OF assms] batch_length [OF assms] by arith
  then show ?thesis
    by (simp add: depth_range_def CHUNK_SIZE_def)
qed

section \<open>Facts about arrays and loading\<close>

lemma astype_shape [simp]: "shape (astype cast a) = shape a"
  by (simp add: astype_def)

lemma setitem_depth_shape:
  "setitem_depth out_array z v = Inr out' \<Longrightarrow> shape out' = shape out_array"
  by (auto simp: setitem_depth_def Let_def split: list.splits if_splits)

lemma setitem_depth_frame:
  assumes "setitem_depth out_array z v = Inr out'"
    and "\<not> (3 \<le> length idx
           \<and> int (idx ! 2) = (if z < 0 then z + int (shape out_array ! 2) else z))"
  shows "elem out' idx = elem out_array idx"
  using assms
  by (auto simp: setitem_depth_def Let_def split: list.splits if_splits)

lemma enumerate_list_fst: "map fst (enumerate_list f) = [0..<length f]"
  by (simp add: enumerate_list_def)

lemma enumerate_list_mem:
  "(k, p) \<in> set (enumerate_list f) \<longleftrightarrow> k < length f \<and> f ! k = p"
  by (force simp: enumerate_list_def set_zip)

lemma load_image_to_array_shape:
  "load_image_to_array lib p out_array z t = Inr out' \<Longrightarrow> shape out' = shape out_array"
  by (auto simp: load_image_to_array_def Let_def setitem_depth_shape split: sum.splits if_splits)

lemma load_image_to_array_untouched:
  assumes "load_image_to_array lib p out_array z t = Inr out'"
    and "\<not> (3 \<le> length idx
           \<and> int (idx ! 2) = (if z < 0 then z + int (shape out_array ! 2) else z))"
  shows "elem out' idx = elem out_array idx"
  using assms
  by (auto simp: load_image_to_array_def Let_def split: sum.splits if_splits
           intro: setitem_depth_frame)

lemma np_squeeze_shape: "shape (np_squeeze a) = filter (\<lambda>d. d \<noteq> 1) (shape a)"
  by (simp add: np_squeeze_def)

lemma load_image_Inr:
  "image_open lib p = Inr raw \<Longrightarrow>
     load_image lib p t = Inr (if t then np_transpose (np_squeeze raw) else np_squeeze raw)"
  by (simp add: load_image_def Let_def)

lemma load_image_Inl: "image_open lib p = Inl e \<Longrightarrow> load_image lib p t = Inl e"
  by (simp add: load_image_def)

lemma get_image_dims_two:
  assumes "image_open lib p = Inr raw" "filter (\<lambda>d. d \<noteq> 1) (shape raw) = [a, b]"
  shows "get_image_dims lib (p # rest) = Inr [b, a, Suc (length rest)]"
  using assms by (simp add: get_image_dims_def load_image_Inr np_transpose_def np_squeeze_shape)

lemma get_image_dims_not_two:
  assumes "image_open lib p = Inr raw" "length (filter (\<lambda>d. d \<noteq> 1) (shape raw)) \<noteq> 2"
  shows "get_image_dims lib (p # rest) = Inl ValueError"
proof -
  have "length (rev (filter (\<lambda>d. d \<noteq> 1) (shape raw))) \<noteq> 2" using assms(2) by simp
  then have "(case rev (filter (\<lambda>d. d \<noteq> 1) (shape raw)) of
                  [x_size, y_size] \<Rightarrow> Inr [x_size, y_size, length (p # rest)]
                | _ \<Rightarrow> Inl ValueError) = (Inl ValueError :: error + nat list)"
    by (auto split: list.splits)
  then show ?thesis
    using assms(1) by (simp add: get_image_dims_def load_image_Inr np_transpose_def np_squeeze_shape)
qed

lemma get_image_dims_Inr:
  assumes "get_image_dims lib files = Inr dims"
  shows "\<exists>p rest raw a b. files = p # rest \<and> image_open lib p = Inr raw
           \<and> filter (\<lambda>d. d \<noteq> 1) (shape raw) = [a, b] \<and> dims = [b, a, length files]"
proof (cases files)
  case Nil
  then show ?thesis using assms by (simp add: get_image_dims_def)
next
  case (Cons p rest)
  show ?thesis
  proof (cases "image_open lib p")
    case (Inl e)
    then show ?thesis using assms Cons by (simp add: get_image_dims_def load_image_Inl)
  next
    case (Inr raw)
    show ?thesis
    proof (cases "length (filter (\<lambda>d. d \<noteq> 1) (shape raw)) = 2")
      case True
      then obtain a b where ab: "filter (\<lambda>d. d \<noteq> 1) (shape raw) = [a, b]"
        by (auto simp: length_Suc_conv numeral_2_eq_2)
      then show ?thesis
        using assms Cons Inr get_image_dims_two [OF Inr ab, of rest] by auto
    next
      case False
      then show ?thesis
        using assms Cons Inr get_image_dims_not_two [OF Inr False, of rest] by simp
    qed
  qed
qed

lemma main_dims_error:
  "get_image_dims lib files = Inl e \<Longrightarrow> main lib files voxel_dims path = ([], Some e)"
  by (simp add: main_def)

lemma np_squeeze_elem_last:
  "shape raw = [X, Y, 1] \<Longrightarrow> X \<noteq> 1 \<Longrightarrow> Y \<noteq> 1 \<Longrightarrow>
     elem (np_squeeze raw) [x, y] = elem raw [x, y, 0]"
  by (simp add: np_squeeze_def)

lemma np_squeeze_elem_first:
  "shape raw = [1, X, Y] \<Longrightarrow> X \<noteq> 1 \<Longrightarrow> Y \<noteq> 1 \<Longrightarrow>
     elem (np_squeeze raw) [x, y] = elem raw [0, x, y]"
  by (simp add: np_squeeze_def)

lemma setitem_depth_commute:
  assumes jk: "j \<noteq> k"
    and a1: "setitem_depth a (int j) v = Inr a1"
    and a2: "setitem_depth a1 (int k) w = Inr a2"
  shows "\<exists>b1. setitem_depth a (int k) w = Inr b1 \<and> setitem_depth b1 (int j) v = Inr a2"
  using assms
  by (auto simp: setitem_depth_def Let_def fun_eq_iff split: list.splits if_splits)

lemma load_image_to_array_commute:
  assumes "j \<noteq> k"
    and "load_image_to_array lib p1 a (int j) True = Inr a1"
    and "load_image_to_array lib p2 a1 (int k) True = Inr a2"
  shows "\<exists>b1. load_image_to_array lib p2 a (int k) True = Inr b1
            \<and> load_image_to_array lib p1 b1 (int j) True = Inr a2"
  using assms setitem_depth_commute
  by (auto simp: load_image_to_array_def Let_def split: sum.splits)

section \<open>Facts about the upload loop\<close>

lemma setitem_volume_Inr:
  "setitem_volume lib v box d = Inr w \<Longrightarrow> w = \<lparr>w_level = mip v, w_box = box, w_data = d\<rparr>"
  by (auto simp: setitem_volume_def Let_def split: if_splits)

lemma write_pyramid_log:
  assumes "write_pyramid lib vols pyr s e js = (ws, r)"
  shows "length ws \<le> length js \<and> (r = None \<longrightarrow> length ws = length js)
     \<and> (\<forall>q<length ws. js ! q < length pyr \<and> js ! q + 1 < length vols
            \<and> ws ! q = \<lparr>w_level = mip (vols ! (js ! q + 1)),
                         w_box = (Full, Full, Range s e), w_data = pyr ! (js ! q)\<rparr>)"
  using assms
proof (induction js arbitrary: ws r)
  case Nil
  then show ?case by simp
next
  case (Cons j js)
  show ?case
  proof (cases "length pyr \<le> j \<or> length vols \<le> j + 1")
    case True
    then show ?thesis using Cons.prems by auto
  next
    case False
    show ?thesis
    proof (cases "setitem_volume lib (vols ! (j + 1)) (Full, Full, Range s e) (pyr ! j)")
      case (Inl err)
      then show ?thesis using Cons.prems False by auto
    next
      case (Inr w)
      obtain ws' r' where rec: "write_pyramid lib vols pyr s e js = (ws', r')"
        by (cases "write_pyramid lib vols pyr s e js") auto
      have eq: "ws = w # ws'" "r = r'"
        using Cons.prems False Inr rec by auto
      have w: "w = \<lparr>w_level = mip (vols ! (j + 1)), w_box = (Full, Full, Range s e),
                    w_data = pyr ! j\<rparr>"
        using setitem_volume_Inr [OF Inr] .
      note IH = Cons.IH [OF rec]
      have nth: "js' ! q < length pyr \<and> js' ! q + 1 < length vols
            \<and> ws ! q = \<lparr>w_level = mip (vols ! (js' ! q + 1)),
                         w_box = (Full, Full, Range s e), w_data = pyr ! (js' ! q)\<rparr>"
        if "q < length ws" "js' = j # js" for q js'
      proof (cases q)
        case 0
        then show ?thesis using eq w False that by simp
      next
        case (Suc q')
        then have "q' < length ws'" using that eq by simp
        then show ?thesis using IH Suc eq that by simp
      qed
      show ?thesis using IH eq nth by simp
    qed
  qed
qed


lemma vols_mip:
  "j < M \<Longrightarrow> mip (map (get_vol_at_mip lib path) [0..<M] ! j) = j"
  by (simp add: get_vol_at_mip_def)

lemma upload_batch_log:
  assumes run: "upload_batch lib vol vols size_xyz M i f = (ws, r)"
    and vols: "vols = map (get_vol_at_mip lib path) [0..<M]"
    and M: "0 < M"
  shows "length ws \<le> M \<and> (r = None \<longrightarrow> length ws = M)
     \<and> (\<forall>q<length ws. level_write_ok lib vol size_xyz M i f q (ws ! q))"
proof (cases "fill_chunk lib size_xyz f")
  case (Inl e)
  then show ?thesis using run by (auto simp: upload_batch_def)
next
  case (Inr tmp_chunk)
  note blk = Inr
  show ?thesis
  proof (cases "average_pooling_2x2 lib tmp_chunk M")
    case (Inl e)
    then show ?thesis using run blk by (auto simp: upload_batch_def)
  next
    case (Inr pyr)
    note pool = Inr
    let ?s = "i * CHUNK_SIZE"
    let ?e = "i * CHUNK_SIZE + length f"
    have dr: "depth_range i f = (?s, ?e)" by (simp add: depth_range_def)
    show ?thesis
    proof (cases "setitem_volume lib vol (Full, Full, Range ?s ?e) tmp_chunk")
      case (Inl e)
      then show ?thesis using run blk pool dr by (auto simp: upload_batch_def)
    next
      case (Inr w)
      obtain wsp rp where wp: "write_pyramid lib vols pyr ?s ?e [0..<M - 1] = (wsp, rp)"
        by (cases "write_pyramid lib vols pyr ?s ?e [0..<M - 1]") auto
      have eq: "ws = w # wsp" "r = rp"
        using run blk pool dr Inr wp by (simp_all add: upload_batch_def)
      have w: "w = \<lparr>w_level = mip vol, w_box = (Full, Full, Range ?s ?e), w_data = tmp_chunk\<rparr>"
        using setitem_volume_Inr [OF Inr] .
      note L = write_pyramid_log [OF wp]
      have len: "length wsp \<le> M - 1" using L by simp
      have ok: "level_write_ok lib vol size_xyz M i f q (ws ! q)" if q: "q < length ws" for q
      proof (cases q)
        case 0
        then show ?thesis using eq w blk pool by (simp add: level_write_ok_def)
      next
        case (Suc q')
        then have q': "q' < length wsp" using q eq by simp
        then have lt: "q' < M - 1" using len by simp
        then have jq: "[0..<M - 1] ! q' = q'" by simp
        have "[0..<M - 1] ! q' < length pyr
            \<and> wsp ! q' = \<lparr>w_level = mip (vols ! ([0..<M - 1] ! q' + 1)),
                         w_box = (Full, Full, Range ?s ?e), w_data = pyr ! ([0..<M - 1] ! q')\<rparr>"
          using L q' by blast
        then have a: "q' < length pyr"
          and b: "wsp ! q' = \<lparr>w_level = mip (vols ! (q' + 1)),
                         w_box = (Full, Full, Range ?s ?e), w_data = pyr ! q'\<rparr>"
          unfolding jq by simp_all
        have "mip (vols ! (q' + 1)) = q' + 1"
          unfolding vols using lt by (intro vols_mip) simp
        then show ?thesis
          using Suc eq a b blk pool by (simp add: level_write_ok_def)
      qed
      have "length ws \<le> M" using eq len M by simp
      moreover have "r = None \<longrightarrow> length ws = M" using eq L M by simp
      ultimately show ?thesis using ok by blast
    qed
  qed
qed

lemma zip_upt_Cons:
  "zip [a..<a + length (b # bs)] (b # bs) = (a, b) # zip [Suc a..<Suc a + length bs] bs"
proof -
  have "[a..<a + length (b # bs)] = a # [Suc a..<Suc a + length bs]"
    by (subst upt_rec) simp
  then show ?thesis by (simp del: upt_Suc)
qed

lemma upload_loop_log:
  assumes run: "upload_loop lib vol vols size_xyz M (zip [a..<a + length bs] bs) = (log, r)"
    and vols: "vols = map (get_vol_at_mip lib path) [0..<M]"
    and M: "0 < M"
  shows "(r = None \<longrightarrow> length log = length bs * M)
     \<and> (\<forall>p<length log. p div M < length bs
           \<and> level_write_ok lib vol size_xyz M (a + p div M) (bs ! (p div M)) (p mod M) (log ! p))"
  using run
proof (induction bs arbitrary: a log r)
  case Nil
  then show ?case by simp
next
  case (Cons b bs)
  obtain ws rb where ub: "upload_batch lib vol vols size_xyz M a b = (ws, rb)"
    by (cases "upload_batch lib vol vols size_xyz M a b") auto
  note B = upload_batch_log [OF ub vols M]
  have first: "p div M < length (b # bs)
        \<and> level_write_ok lib vol size_xyz M (a + p div M) ((b # bs) ! (p div M)) (p mod M) (ws ! p)"
    if "p < length ws" for p
  proof -
    have "p < M" using that B by simp
    then show ?thesis using B that by simp
  qed
  show ?case
  proof (cases rb)
    case (Some e)
    then have "log = ws" "r = Some e"
      using Cons.prems ub unfolding zip_upt_Cons by simp_all
    then show ?thesis using first by simp
  next
    case None
    obtain log' r' where rec:
      "upload_loop lib vol vols size_xyz M (zip [Suc a..<Suc a + length bs] bs) = (log', r')"
      by (cases "upload_loop lib vol vols size_xyz M (zip [Suc a..<Suc a + length bs] bs)") auto
    have eq: "log = ws @ log'" "r = r'"
      using Cons.prems ub None rec unfolding zip_upt_Cons by simp_all
    have lenws: "length ws = M" using B None by simp
    note IH = Cons.IH [OF rec]
    have later: "p div M < length (b # bs)
        \<and> level_write_ok lib vol size_xyz M (a + p div M) ((b # bs) ! (p div M)) (p mod M) (log ! p)"
      if p: "p < length log" "\<not> p < length ws" for p
    proof -
      have ge: "M \<le> p" using p lenws by simp
      have lt: "p - M < length log'" using p eq lenws by simp
      have d: "p div M = Suc ((p - M) div M)" using ge M by (simp add: le_div_geq)
      have m: "p mod M = (p - M) mod M" using ge by (simp add: le_mod_geq)
      have nth: "log ! p = log' ! (p - M)" using eq lenws ge by (simp add: nth_append)
      have "(p - M) div M < length bs
           \<and> level_write_ok lib vol size_xyz M (Suc a + (p - M) div M) (bs ! ((p - M) div M))
               ((p - M) mod M) (log' ! (p - M))"
        using IH lt by blast
      then show ?thesis unfolding d m nth by simp
    qed
    have all: "\<forall>p<length log. p div M < length (b # bs)
        \<and> level_write_ok lib vol size_xyz M (a + p div M) ((b # bs) ! (p div M)) (p mod M) (log ! p)"
    proof (intro allI impI)
      fix p assume p: "p < length log"
      show "p div M < length (b # bs)
        \<and> level_write_ok lib vol size_xyz M (a + p div M) ((b # bs) ! (p div M)) (p mod M) (log ! p)"
      proof (cases "p < length ws")
        case True
        then have "log ! p = ws ! p" using eq by (simp add: nth_append)
        then show ?thesis using first [OF True] by simp
      next
        case False
        then show ?thesis using later [OF p] by simp
      qed
    qed
    have "r = None \<longrightarrow> length log = length (b # bs) * M"
      using IH eq lenws by simp
    then show ?thesis using all by blast
  qed
qed


lemma broadcastable_refl: "broadcastable s s"
  by (auto simp: broadcastable_def list_all_iff set_zip)

lemma slice_matches_fits: "slice_matches lib size_xyz p \<Longrightarrow> slice_fits lib size_xyz p"
  by (auto simp: slice_matches_def slice_fits_def broadcastable_refl split: sum.splits)

lemma broadcastable_no_ones:
  assumes "1 \<notin> set vs"
  shows "broadcastable vs [X, Y] \<longleftrightarrow> vs = [] \<or> vs = [Y] \<or> vs = [X, Y]"
proof (cases vs)
  case Nil
  then show ?thesis by (simp add: broadcastable_def)
next
  case (Cons a as)
  note c1 = Cons
  show ?thesis
  proof (cases as)
    case Nil
    then show ?thesis using c1 assms by (auto simp: broadcastable_def)
  next
    case (Cons b bs)
    note c2 = Cons
    show ?thesis
    proof (cases bs)
      case Nil
      then show ?thesis using c1 c2 assms by (auto simp: broadcastable_def)
    next
      case (Cons c cs)
      then have "take (length vs - length [X, Y]) vs \<noteq> []" using c1 c2 by simp
      then obtain d where "d \<in> set (take (length vs - length [X, Y]) vs)"
        by (cases "take (length vs - length [X, Y]) vs") auto
      moreover then have "d \<noteq> 1" using assms by (metis in_set_takeD)
      ultimately have "\<not> broadcastable vs [X, Y]"
        by (auto simp: broadcastable_def list_all_iff)
      then show ?thesis using c1 c2 Cons by simp
    qed
  qed
qed

lemma slice_fits_shapes:
  assumes "image_open lib p = Inr raw"
  shows "slice_fits lib (X # Y # rest) p
     \<longleftrightarrow> shape (np_transpose (np_squeeze raw)) \<in> {[], [Y], [X, Y]}"
proof -
  have "1 \<notin> set (shape (np_transpose (np_squeeze raw)))"
    by (simp add: np_transpose_def np_squeeze_def)
  then show ?thesis
    using assms broadcastable_no_ones [of "shape (np_transpose (np_squeeze raw))" X Y]
    by (simp add: slice_fits_def)
qed

lemma load_image_to_array_fits:
  assumes "shape out_array = [X, Y, n]" "k < n"
  shows "(\<exists>out'. load_image_to_array lib p out_array (int k) True = Inr out')
           \<longleftrightarrow> slice_fits lib (X # Y # rest) p"
  using assms
  by (auto simp: load_image_to_array_def slice_fits_def setitem_depth_def Let_def
           split: sum.splits)

lemma load_batch_fits:
  assumes "shape out_array = [X, Y, n]" "a + length fs \<le> n"
  shows "(\<exists>out'. load_batch lib out_array (zip [a..<a + length fs] fs) = Inr out')
           \<longleftrightarrow> (\<forall>p\<in>set fs. slice_fits lib (X # Y # rest) p)"
  using assms
proof (induction fs arbitrary: a out_array)
  case Nil
  then show ?case by simp
next
  case (Cons p fs)
  have k: "a < n" using Cons.prems by simp
  note one = load_image_to_array_fits [OF Cons.prems(1) k, of lib p rest]
  show ?case
  proof (cases "load_image_to_array lib p out_array (int a) True")
    case (Inl e)
    then have "\<not> slice_fits lib (X # Y # rest) p" using one by simp
    then show ?thesis using Inl unfolding zip_upt_Cons by simp
  next
    case (Inr out1)
    then have fit: "slice_fits lib (X # Y # rest) p" using one by auto
    have sh: "shape out1 = [X, Y, n]"
      using load_image_to_array_shape [OF Inr] Cons.prems(1) by simp
    have "Suc a + length fs \<le> n" using Cons.prems(2) by simp
    note IH = Cons.IH [OF sh this]
    show ?thesis using Inr fit IH unfolding zip_upt_Cons by simp
  qed
qed

lemma fill_chunk_fits:
  "(\<exists>blk. fill_chunk lib (X # Y # rest) f = Inr blk)
     \<longleftrightarrow> (\<forall>p\<in>set f. slice_fits lib (X # Y # rest) p)"
  using load_batch_fits [of "np_zeros [X, Y, length f]" X Y "length f" 0 f lib rest]
  by (simp add: fill_chunk_def alloc_chunk_def enumerate_list_def np_zeros_def)

lemma load_batch_shape:
  "load_batch lib out_array xs = Inr out' \<Longrightarrow> shape out' = shape out_array"
proof (induction xs arbitrary: out_array)
  case Nil
  then show ?case by simp
next
  case (Cons x xs)
  obtain idx img where x: "x = (idx, img)" by (cases x)
  show ?case
  proof (cases "load_image_to_array lib img out_array (int idx) True")
    case (Inl e)
    then show ?thesis using Cons.prems x by simp
  next
    case (Inr out1)
    then have "load_batch lib out1 xs = Inr out'" using Cons.prems x by simp
    then have "shape out' = shape out1" by (rule Cons.IH)
    then show ?thesis using load_image_to_array_shape [OF Inr] by simp
  qed
qed

lemma fill_chunk_shape:
  assumes "fill_chunk lib (X # Y # rest) f = Inr blk"
  shows "shape blk = [X, Y, length f]"
proof -
  have "load_batch lib (np_zeros [X, Y, length f]) (enumerate_list f) = Inr blk"
    using assms by (simp add: fill_chunk_def alloc_chunk_def)
  then show ?thesis using load_batch_shape by (fastforce simp: np_zeros_def)
qed

lemma fill_chunk_bad:
  assumes "p \<in> set f" "\<not> slice_fits lib size_xyz p"
  shows "\<exists>e. fill_chunk lib size_xyz f = Inl e"
proof (cases "\<exists>X Y rest. size_xyz = X # Y # rest")
  case True
  then obtain X Y rest where s: "size_xyz = X # Y # rest" by blast
  have "\<not> (\<exists>blk. fill_chunk lib size_xyz f = Inr blk)"
    using fill_chunk_fits [of lib X Y rest f] assms s by blast
  then show ?thesis by (cases "fill_chunk lib size_xyz f") auto
next
  case False
  then have "alloc_chunk size_xyz (length f) = Inl IndexError"
    by (auto simp: alloc_chunk_def split: list.splits)
  then show ?thesis by (simp add: fill_chunk_def)
qed

lemma upload_batch_bad:
  assumes "p \<in> set f" "\<not> slice_fits lib size_xyz p"
  shows "\<exists>e. upload_batch lib vol vols size_xyz M i f = ([], Some e)"
  using fill_chunk_bad [OF assms] by (auto simp: upload_batch_def)

lemma upload_batch_box:
  assumes "upload_batch lib vol vols size_xyz M i f = (ws, r)" "w \<in> set ws"
  shows "w_box w = (Full, Full, Range (i * CHUNK_SIZE) (i * CHUNK_SIZE + length f))"
proof -
  let ?s = "i * CHUNK_SIZE"
  let ?e = "i * CHUNK_SIZE + length f"
  have box: "w_box w' = (Full, Full, Range ?s ?e)"
    if wp: "write_pyramid lib vols pyr ?s ?e js = (wsp, rp)" and mem: "w' \<in> set wsp"
    for pyr js wsp rp w'
  proof -
    obtain q where "q < length wsp" "wsp ! q = w'"
      using mem by (auto simp: in_set_conv_nth)
    then show ?thesis using write_pyramid_log [OF wp] by auto
  qed
  show ?thesis
    using assms box
    by (auto simp: upload_batch_def depth_range_def split: sum.splits prod.splits
             dest!: setitem_volume_Inr)
qed

lemma upload_loop_bad:
  assumes "k < length bs" "p \<in> set (bs ! k)" "\<not> slice_fits lib size_xyz p"
  shows "snd (upload_loop lib vol vols size_xyz M (zip [a..<a + length bs] bs)) \<noteq> None
     \<and> (\<forall>w\<in>set (fst (upload_loop lib vol vols size_xyz M (zip [a..<a + length bs] bs))).
           \<exists>i<k. w_box w = (Full, Full, Range ((a + i) * CHUNK_SIZE)
                                            ((a + i) * CHUNK_SIZE + length (bs ! i))))"
  using assms(1,2)
proof (induction bs arbitrary: a k)
  case Nil
  then show ?case by simp
next
  case (Cons b bs)
  obtain ws rb where ub: "upload_batch lib vol vols size_xyz M a b = (ws, rb)"
    by (cases "upload_batch lib vol vols size_xyz M a b") auto
  show ?case
  proof (cases k)
    case 0
    then have "p \<in> set b" using Cons.prems by simp
    then obtain e where "upload_batch lib vol vols size_xyz M a b = ([], Some e)"
      using upload_batch_bad [OF _ assms(3)] by blast
    then show ?thesis unfolding zip_upt_Cons by simp
  next
    case (Suc k')
    have here: "\<forall>w\<in>set ws. \<exists>i<k. w_box w
        = (Full, Full, Range ((a + i) * CHUNK_SIZE)
                             ((a + i) * CHUNK_SIZE + length ((b # bs) ! i)))"
    proof
      fix w assume "w \<in> set ws"
      then have "w_box w = (Full, Full, Range ((a + 0) * CHUNK_SIZE)
                                ((a + 0) * CHUNK_SIZE + length ((b # bs) ! 0)))"
        using upload_batch_box [OF ub] by simp
      then show "\<exists>i<k. w_box w
        = (Full, Full, Range ((a + i) * CHUNK_SIZE)
                             ((a + i) * CHUNK_SIZE + length ((b # bs) ! i)))"
        using Suc by blast
    qed
    show ?thesis
    proof (cases rb)
      case (Some e)
      then show ?thesis using ub here unfolding zip_upt_Cons by simp
    next
      case None
      have k': "k' < length bs" "p \<in> set (bs ! k')" using Cons.prems Suc by simp_all
      note IH = Cons.IH [OF k', of "Suc a"]
      obtain log' r' where rec:
        "upload_loop lib vol vols size_xyz M (zip [Suc a..<Suc a + length bs] bs) = (log', r')"
        by (cases "upload_loop lib vol vols size_xyz M (zip [Suc a..<Suc a + length bs] bs)") auto
      have later: "\<forall>w\<in>set log'. \<exists>i<k. w_box w
        = (Full, Full, Range ((a + i) * CHUNK_SIZE)
                             ((a + i) * CHUNK_SIZE + length ((b # bs) ! i)))"
      proof
        fix w assume "w \<in> set log'"
        then obtain i where i: "i < k'"
          and box: "w_box w = (Full, Full, Range ((Suc a + i) * CHUNK_SIZE)
                                   ((Suc a + i) * CHUNK_SIZE + length (bs ! i)))"
          using IH rec by auto
        have "w_box w = (Full, Full, Range ((a + Suc i) * CHUNK_SIZE)
                                   ((a + Suc i) * CHUNK_SIZE + length ((b # bs) ! Suc i)))"
          using box by simp
        moreover have "Suc i < k" using i Suc by simp
        ultimately show "\<exists>i<k. w_box w
        = (Full, Full, Range ((a + i) * CHUNK_SIZE)
                             ((a + i) * CHUNK_SIZE + length ((b # bs) ! i)))"
          by blast
      qed
      have "r' \<noteq> None" using IH rec by simp
      then show ?thesis
        using ub None rec here later unfolding zip_upt_Cons by auto
    qed
  qed
qed

lemma write_pyramid_complete:
  assumes "\<forall>w. store_accepts lib w" "\<forall>j\<in>set js. j < length pyr \<and> j + 1 < length vols"
  shows "snd (write_pyramid lib vols pyr s e js) = None"
  using assms(2)
proof (induction js)
  case Nil
  then show ?case by simp
next
  case (Cons j js)
  then show ?case
    using assms(1) by (auto simp: setitem_volume_def Let_def split: prod.splits)
qed

lemma upload_batch_complete:
  assumes "fill_chunk lib size_xyz f = Inr blk"
    and "average_pooling_2x2 lib blk M = Inr pyr" "M - 1 \<le> length pyr"
    and "\<forall>w. store_accepts lib w" "length vols = M"
  shows "snd (upload_batch lib vol vols size_xyz M i f) = None"
proof -
  have "\<forall>j\<in>set [0..<M - 1]. j < length pyr \<and> j + 1 < length vols"
    using assms(3,5) by auto
  then have "snd (write_pyramid lib vols pyr s e [0..<M - 1]) = None" for s e
    using write_pyramid_complete [OF assms(4)] by blast
  then have "snd (write_pyramid lib vols pyr (i * CHUNK_SIZE) (i * CHUNK_SIZE + length f)
                    [0..<M - 1]) = None" .
  then show ?thesis
    using assms(1,2,4)
    by (cases "write_pyramid lib vols pyr (i * CHUNK_SIZE) (i * CHUNK_SIZE + length f)
                 [0..<M - 1]")
       (simp add: upload_batch_def depth_range_def setitem_volume_def Let_def)
qed

lemma upload_loop_complete:
  assumes "\<forall>w. store_accepts lib w" "length vols = M"
    and "\<forall>f\<in>snd ` set L. \<exists>blk pyr. fill_chunk lib size_xyz f = Inr blk
            \<and> average_pooling_2x2 lib blk M = Inr pyr \<and> M - 1 \<le> length pyr"
  shows "snd (upload_loop lib vol vols size_xyz M L) = None"
  using assms(3)
proof (induction L)
  case Nil
  then show ?case by simp
next
  case (Cons x L)
  obtain i f where x: "x = (i, f)" by (cases x)
  obtain blk pyr where f1: "fill_chunk lib size_xyz f = Inr blk"
    and f2: "average_pooling_2x2 lib blk M = Inr pyr" and f3: "M - 1 \<le> length pyr"
    using Cons.prems x by auto
  have b: "snd (upload_batch lib vol vols size_xyz M i f) = None"
    by (rule upload_batch_complete [OF f1 f2 f3 assms(1) assms(2)])
  have "snd (upload_loop lib vol vols size_xyz M L) = None"
    using Cons by simp
  then show ?case using b x
    by (cases "upload_batch lib vol vols size_xyz M i f";
        cases "upload_loop lib vol vols size_xyz M L") simp
qed

lemma batch_files_subset:
  assumes "f \<in> set (chunks_loop 0 files 16)"
  shows "set f \<subseteq> set files"
proof -
  obtain k where k: "k < length (chunks_loop 0 files 16)" "chunks_loop 0 files 16 ! k = f"
    using assms by (auto simp: in_set_conv_nth)
  then have "f = take 16 (drop (16 * k) files)" using batch_nth by blast
  then show ?thesis
    using set_take_subset set_drop_subset by fast
qed

lemma upload_complete:
  assumes scales: "info vol = scale0 # others"
    and size: "scale_size scale0 = X # Y # rest"
    and fits: "\<forall>p\<in>set files. slice_fits lib (scale_size scale0) p"
    and pool: "\<forall>blk n. shape blk = [X, Y, n] \<longrightarrow>
                 (\<exists>pyr. average_pooling_2x2 lib blk (length (info vol)) = Inr pyr
                    \<and> length (info vol) - 1 \<le> length pyr)"
    and acc: "\<forall>w. store_accepts lib w"
  shows "snd (upload_image_to_volume lib vol files) = None"
proof -
  let ?M = "length (info vol)"
  let ?bs = "chunks_loop 0 files 16"
  have "\<exists>blk pyr. fill_chunk lib (scale_size scale0) f = Inr blk
            \<and> average_pooling_2x2 lib blk ?M = Inr pyr \<and> ?M - 1 \<le> length pyr"
    if "f \<in> set ?bs" for f
  proof -
    have "\<forall>p\<in>set f. slice_fits lib (X # Y # rest) p"
      using batch_files_subset [OF that] fits size by auto
    then obtain blk where blk: "fill_chunk lib (scale_size scale0) f = Inr blk"
      using fill_chunk_fits [of lib X Y rest f] size by auto
    then have "shape blk = [X, Y, length f]"
      using fill_chunk_shape [of lib X Y rest f blk] size by simp
    then show ?thesis using pool blk by blast
  qed
  then have "\<forall>f\<in>snd ` set (enumerate_list ?bs). \<exists>blk pyr.
       fill_chunk lib (scale_size scale0) f = Inr blk
            \<and> average_pooling_2x2 lib blk ?M = Inr pyr \<and> ?M - 1 \<le> length pyr"
    by (auto simp: enumerate_list_def dest: set_zip_rightD)
  then have "snd (upload_loop lib vol (map (get_vol_at_mip lib (layer_cloudpath vol)) [0..<?M])
                (scale_size scale0) ?M (enumerate_list ?bs)) = None"
    using upload_loop_complete [OF acc] by simp
  then show ?thesis
    using scales by (simp add: upload_image_to_volume_def chunks_CHUNK_SIZE Let_def)
qed

lemma create_cloud_volume_calls:
  "fst (create_cloud_volume lib path img_size voxel_size n)
     = NewInfo (info_args img_size voxel_size)
       # map (\<lambda>i. AddScale (2 ^ i, 2 ^ i, 1)) [0..<n] @ [CommitInfo]"
  by (simp add: create_cloud_volume_def scale_factors_def Let_def comp_def)

lemma main_calls:
  assumes "main lib files voxel_dims path = (evs, r)"
  shows "evs = [] \<or> (\<exists>img_size voxel_size ws.
           evs = fst (create_cloud_volume lib path img_size voxel_size 6) @ map BoxWrite ws)"
proof (cases "get_image_dims lib files")
  case (Inl e)
  then show ?thesis using assms by (simp add: main_def)
next
  case (Inr img_size)
  note dims = Inr
  show ?thesis
  proof (cases voxel_dims)
    case (Inl e)
    then show ?thesis using assms dims by (simp add: main_def)
  next
    case (Inr voxel_size)
    obtain calls vol where c: "create_cloud_volume lib path img_size voxel_size 6 = (calls, vol)"
      by (cases "create_cloud_volume lib path img_size voxel_size 6") auto
    obtain ws r' where u: "upload_image_to_volume lib vol files = (ws, r')"
      by (cases "upload_image_to_volume lib vol files") auto
    have "evs = fst (create_cloud_volume lib path img_size voxel_size 6) @ map BoxWrite ws"
      using assms dims Inr c u by (simp add: main_def)
    then show ?thesis by blast
  qed
qed

section \<open>Evaluating the examples\<close>

lemmas stub_defs = stub_library_def stub_volume_def stub_image_def row_image_def deep_image_def
  thin_image_def stub_pooled_def

lemma chunks_loop_17:
  "chunks_loop 0 (replicate 17 x) 16 = [replicate 16 x, [x]]"
proof -
  have a: "chunks_loop 0 (replicate 17 x) 16
      = take 16 (drop 0 (replicate 17 x)) # chunks_loop 16 (replicate 17 x) 16"
    by (subst chunks_loop.simps) simp
  have b: "chunks_loop 16 (replicate 17 x) 16
      = take 16 (drop 16 (replicate 17 x)) # chunks_loop 32 (replicate 17 x) 16"
    by (subst chunks_loop.simps) simp
  have c: "chunks_loop 32 (replicate 17 x) 16 = []"
    by (subst chunks_loop.simps) simp
  show ?thesis unfolding a b c by simp
qed

lemma chunks_loop_16_1:
  "chunks_loop 0 (replicate 16 x @ [y]) 16 = [replicate 16 x, [y]]"
proof -
  have a: "chunks_loop 0 (replicate 16 x @ [y]) 16
      = take 16 (drop 0 (replicate 16 x @ [y])) # chunks_loop 16 (replicate 16 x @ [y]) 16"
    by (subst chunks_loop.simps) simp
  have b: "chunks_loop 16 (replicate 16 x @ [y]) 16
      = take 16 (drop 16 (replicate 16 x @ [y])) # chunks_loop 32 (replicate 16 x @ [y]) 16"
    by (subst chunks_loop.simps) simp
  have c: "chunks_loop 32 (replicate 16 x @ [y]) 16 = []"
    by (subst chunks_loop.simps) simp
  show ?thesis unfolding a b c by simp
qed

lemma chunks_loop_two: "chunks_loop 0 [a, b] 16 = [[a, b]]"
proof -
  have "chunks_loop 16 [a, b] 16 = []" by (subst chunks_loop.simps) simp
  then show ?thesis by (subst chunks_loop.simps) simp
qed

lemmas run_defs = upload_image_to_volume_def chunks_def
  CHUNK_SIZE_def enumerate_list_def upload_batch_def fill_chunk_def alloc_chunk_def
  load_image_to_array_def np_zeros_def np_squeeze_def
  np_transpose_def astype_def setitem_depth_def broadcastable_def broadcast_index_def in_bounds_def
  depth_range_def setitem_volume_def get_vol_at_mip_def Let_def

section \<open>Claims about the batching\<close>

text \<open>
  C1. For every ordered file list of length \<open>N\<close> and the batch size 16 (\<open>CHUNK_SIZE\<close>),
  \<open>chunks\<close> produces exactly \<open>ceil(N/16)\<close> batches. Batch \<open>k\<close> is the contiguous run
  \<open>files[16k : 16k+16]\<close>, its depth range as computed by the upload loop is
  \<open>[16k, min N (16k+16))\<close>, it is not empty and has at most 16 entries, every batch but the
  last has exactly 16 and ends where the next one starts, the batches concatenated in order
  give back the file list, and every depth index below \<open>N\<close> lies in the depth range of
  exactly one batch.
\<close>

theorem chunks_batch_coverage:
  fixes files :: "'a list"
  shows "\<exists>bs. chunks files (int CHUNK_SIZE) = Inr bs
     \<and> length bs = (length files + 15) div 16
     \<and> concat bs = files
     \<and> (\<forall>k<length bs.
          bs ! k = take 16 (drop (16 * k) files)
        \<and> depth_range k (bs ! k) = (16 * k, min (length files) (16 * k + 16))
        \<and> 0 < length (bs ! k) \<and> length (bs ! k) \<le> 16
        \<and> (Suc k < length bs \<longrightarrow>
              length (bs ! k) = 16
            \<and> snd (depth_range k (bs ! k)) = fst (depth_range (Suc k) (bs ! Suc k)))
        \<and> (Suc k = length bs \<longrightarrow> snd (depth_range k (bs ! k)) = length files))
     \<and> (\<forall>z<length files. \<exists>!k. k < length bs
            \<and> fst (depth_range k (bs ! k)) \<le> z \<and> z < snd (depth_range k (bs ! k)))"
proof -
  let ?bs = "chunks_loop 0 files 16"
  have per_batch: "?bs ! k = take 16 (drop (16 * k) files)
        \<and> depth_range k (?bs ! k) = (16 * k, min (length files) (16 * k + 16))
        \<and> 0 < length (?bs ! k) \<and> length (?bs ! k) \<le> 16
        \<and> (Suc k < length ?bs \<longrightarrow>
              length (?bs ! k) = 16
            \<and> snd (depth_range k (?bs ! k)) = fst (depth_range (Suc k) (?bs ! Suc k)))
        \<and> (Suc k = length ?bs \<longrightarrow> snd (depth_range k (?bs ! k)) = length files)"
    if k: "k < length ?bs" for k
  proof -
    have lt: "16 * k < length files" using batch_index_in_range [OF k] .
    have len: "length (?bs ! k) = min 16 (length files - 16 * k)"
      using batch_length [OF k] .
    have range: "depth_range k (?bs ! k) = (16 * k, min (length files) (16 * k + 16))"
      using batch_depth_range [OF k] .
    have pos: "0 < length (?bs ! k)" and le: "length (?bs ! k) \<le> 16"
      using lt len by simp_all
    have step: "Suc k < length ?bs \<longrightarrow>
              length (?bs ! k) = 16
            \<and> snd (depth_range k (?bs ! k)) = fst (depth_range (Suc k) (?bs ! Suc k))"
    proof
      assume "Suc k < length ?bs"
      then have "length (?bs ! k) = 16" by (rule batch_full)
      then show "length (?bs ! k) = 16
            \<and> snd (depth_range k (?bs ! k)) = fst (depth_range (Suc k) (?bs ! Suc k))"
        by (simp add: depth_range_def CHUNK_SIZE_def)
    qed
    have last: "Suc k = length ?bs \<longrightarrow> snd (depth_range k (?bs ! k)) = length files"
    proof
      assume "Suc k = length ?bs"
      then have "length files \<le> 16 * k + 16" using batch_last_index [OF k] by simp
      then show "snd (depth_range k (?bs ! k)) = length files"
        using range by (simp add: min_def)
    qed
    show ?thesis
      using batch_nth [OF k] range pos le step last by blast
  qed
  have cover: "\<exists>!k. k < length ?bs
            \<and> fst (depth_range k (?bs ! k)) \<le> z \<and> z < snd (depth_range k (?bs ! k))"
    if z: "z < length files" for z
  proof (rule ex1I [of _ "z div 16"])
    have k: "z div 16 < length ?bs" using z unfolding batch_count by arith
    have "depth_range (z div 16) (?bs ! (z div 16))
        = (16 * (z div 16), min (length files) (16 * (z div 16) + 16))"
      using batch_depth_range [OF k] .
    then show "z div 16 < length ?bs
        \<and> fst (depth_range (z div 16) (?bs ! (z div 16))) \<le> z
        \<and> z < snd (depth_range (z div 16) (?bs ! (z div 16)))"
      using k z by simp
  next
    fix k
    assume a: "k < length ?bs
        \<and> fst (depth_range k (?bs ! k)) \<le> z \<and> z < snd (depth_range k (?bs ! k))"
    then have "depth_range k (?bs ! k) = (16 * k, min (length files) (16 * k + 16))"
      using batch_depth_range by blast
    then have "16 * k \<le> z \<and> z < 16 * k + 16" using a by simp
    then show "k = z div 16" by arith
  qed
  have A: "chunks files (int CHUNK_SIZE) = Inr ?bs"
    by (rule chunks_CHUNK_SIZE)
  have B: "length ?bs = (length files + 15) div 16"
    by (rule batch_count)
  have C: "concat ?bs = files"
    using chunks_loop_concat [of 16 0 files] by simp
  have D: "\<forall>k<length ?bs.
          ?bs ! k = take 16 (drop (16 * k) files)
        \<and> depth_range k (?bs ! k) = (16 * k, min (length files) (16 * k + 16))
        \<and> 0 < length (?bs ! k) \<and> length (?bs ! k) \<le> 16
        \<and> (Suc k < length ?bs \<longrightarrow>
              length (?bs ! k) = 16
            \<and> snd (depth_range k (?bs ! k)) = fst (depth_range (Suc k) (?bs ! Suc k)))
        \<and> (Suc k = length ?bs \<longrightarrow> snd (depth_range k (?bs ! k)) = length files)"
    using per_batch by blast
  have E: "\<forall>z<length files. \<exists>!k. k < length ?bs
            \<and> fst (depth_range k (?bs ! k)) \<le> z \<and> z < snd (depth_range k (?bs ! k))"
    using cover by blast
  show ?thesis
    by (rule exI [of _ ?bs]) (intro conjI A B C D E)
qed

theorem chunks_batch_coverage_witness:
  "\<exists>bs. chunks [0..<18] (int CHUNK_SIZE) = Inr bs \<and> length bs = 2
     \<and> bs ! 0 = [0..<16] \<and> bs ! 1 = [16, 17]
     \<and> depth_range 0 (bs ! 0) = (0, 16) \<and> depth_range 1 (bs ! 1) = (16, 18)
     \<and> (\<exists>!k. k < length bs
            \<and> fst (depth_range k (bs ! k)) \<le> 17 \<and> 17 < snd (depth_range k (bs ! k)))"
proof -
  from chunks_batch_coverage [of "[0..<18]"]
  obtain bs where c: "chunks [0..<18] (int CHUNK_SIZE) = Inr bs"
    and l: "length bs = (length [0..<18] + 15) div 16"
    and p: "\<forall>k<length bs.
          bs ! k = take 16 (drop (16 * k) [0..<18])
        \<and> depth_range k (bs ! k) = (16 * k, min (length [0..<18]) (16 * k + 16))
        \<and> 0 < length (bs ! k) \<and> length (bs ! k) \<le> 16
        \<and> (Suc k < length bs \<longrightarrow>
              length (bs ! k) = 16
            \<and> snd (depth_range k (bs ! k)) = fst (depth_range (Suc k) (bs ! Suc k)))
        \<and> (Suc k = length bs \<longrightarrow> snd (depth_range k (bs ! k)) = length [0..<18])"
    and z: "\<forall>z<length [0..<18]. \<exists>!k. k < length bs
            \<and> fst (depth_range k (bs ! k)) \<le> z \<and> z < snd (depth_range k (bs ! k))"
    by blast
  have len: "length bs = 2" using l by simp
  have k0: "0 < length bs" and k1: "1 < length bs" using len by simp_all
  have b0: "bs ! 0 = take 16 (drop (16 * 0) [0..<18])"
    and r0: "depth_range 0 (bs ! 0) = (16 * 0, min (length [0..<18]) (16 * 0 + 16))"
    using p k0 by blast+
  have b1: "bs ! 1 = take 16 (drop (16 * 1) [0..<18])"
    and r1: "depth_range 1 (bs ! 1) = (16 * 1, min (length [0..<18]) (16 * 1 + 16))"
    using p k1 by blast+
  have "[0..<18] = [0, 1, 2, 3, 4, 5, 6, 7, 8, 9, 10, 11, 12, 13, 14, 15, 16, 17]"
    by (simp add: upt_rec)
  moreover have "[0..<16] = [0, 1, 2, 3, 4, 5, 6, 7, 8, 9, 10, 11, 12, 13, 14, 15]"
    by (simp add: upt_rec)
  ultimately have e0: "bs ! 0 = [0..<16]" and e1: "bs ! 1 = [16, 17]"
    using b0 b1 by simp_all
  have "(17::nat) < length [0..<18]" by simp
  then have u: "\<exists>!k. k < length bs
            \<and> fst (depth_range k (bs ! k)) \<le> 17 \<and> 17 < snd (depth_range k (bs ! k))"
    using z by blast
  have d0: "depth_range 0 (bs ! 0) = (0, 16)" and d1: "depth_range 1 (bs ! 1) = (16, 18)"
    using r0 r1 by simp_all
  show ?thesis
    by (rule exI [of _ bs]) (intro conjI c len e0 e1 d0 d1 u)
qed

section \<open>Claims about loading a slice\<close>

text \<open>
  C8. A call \<open>load_image_to_array(path, out_array, z_idx)\<close> that returns leaves the shape
  of \<open>out_array\<close> and every sample outside the depth slice \<open>z_idx\<close> (counted from the
  end when negative) as they were. The workers of one batch get the positions
  \<open>0, ..., len(f) - 1\<close> from \<open>enumerate\<close>, which are pairwise distinct, so the samples
  changed by one worker all lie in its own depth slice and no sample is changed by two
  workers.
\<close>

theorem load_image_to_array_frame:
  "(load_image_to_array lib p out_array z t = Inr out' \<longrightarrow>
      shape out' = shape out_array
    \<and> (\<forall>idx. \<not> (3 \<le> length idx
               \<and> int (idx ! 2) = (if z < 0 then z + int (shape out_array ! 2) else z))
           \<longrightarrow> elem out' idx = elem out_array idx))
   \<and> map fst (enumerate_list f) = [0..<length f]
   \<and> distinct (map fst (enumerate_list f))
   \<and> ((j, p1) \<in> set (enumerate_list f) \<and> (k, p2) \<in> set (enumerate_list f)
        \<and> (j, p1) \<noteq> (k, p2)
        \<and> load_image_to_array lib p1 a (int j) True = Inr a'
        \<and> load_image_to_array lib p2 b (int k) True = Inr b'
      \<longrightarrow> j \<noteq> k
        \<and> {idx. elem a' idx \<noteq> elem a idx} \<subseteq> {idx. 3 \<le> length idx \<and> idx ! 2 = j}
        \<and> {idx. elem b' idx \<noteq> elem b idx} \<subseteq> {idx. 3 \<le> length idx \<and> idx ! 2 = k}
        \<and> {idx. elem a' idx \<noteq> elem a idx} \<inter> {idx. elem b' idx \<noteq> elem b idx} = {})"
proof -
  have frame: "shape out' = shape out_array
    \<and> (\<forall>idx. \<not> (3 \<le> length idx
               \<and> int (idx ! 2) = (if z < 0 then z + int (shape out_array ! 2) else z))
           \<longrightarrow> elem out' idx = elem out_array idx)"
    if "load_image_to_array lib p out_array z t = Inr out'"
    using load_image_to_array_shape [OF that] load_image_to_array_untouched [OF that]
    by blast
  have region: "{idx. elem c' idx \<noteq> elem c idx} \<subseteq> {idx. 3 \<le> length idx \<and> idx ! 2 = n}"
    if "load_image_to_array lib q c (int n) True = Inr c'" for q c c' n
    using load_image_to_array_untouched [OF that] by auto
  have workers: "j \<noteq> k
        \<and> {idx. elem a' idx \<noteq> elem a idx} \<subseteq> {idx. 3 \<le> length idx \<and> idx ! 2 = j}
        \<and> {idx. elem b' idx \<noteq> elem b idx} \<subseteq> {idx. 3 \<le> length idx \<and> idx ! 2 = k}
        \<and> {idx. elem a' idx \<noteq> elem a idx} \<inter> {idx. elem b' idx \<noteq> elem b idx} = {}"
    if m: "(j, p1) \<in> set (enumerate_list f)" "(k, p2) \<in> set (enumerate_list f)"
      and ne: "(j, p1) \<noteq> (k, p2)"
      and la: "load_image_to_array lib p1 a (int j) True = Inr a'"
      and lb: "load_image_to_array lib p2 b (int k) True = Inr b'"
  proof -
    have jk: "j \<noteq> k" using m ne by (auto simp: enumerate_list_mem)
    have ra: "{idx. elem a' idx \<noteq> elem a idx} \<subseteq> {idx. 3 \<le> length idx \<and> idx ! 2 = j}"
      using region [OF la] .
    have rb: "{idx. elem b' idx \<noteq> elem b idx} \<subseteq> {idx. 3 \<le> length idx \<and> idx ! 2 = k}"
      using region [OF lb] .
    have "{idx. elem a' idx \<noteq> elem a idx} \<inter> {idx. elem b' idx \<noteq> elem b idx} = {}"
      using ra rb jk by blast
    then show ?thesis using jk ra rb by blast
  qed
  have enum: "map fst (enumerate_list f) = [0..<length f]"
    by (rule enumerate_list_fst)
  have dist: "distinct (map fst (enumerate_list f))"
    by (simp add: enumerate_list_fst)
  show ?thesis
    using frame enum dist workers by blast
qed

theorem load_image_to_array_frame_witness:
  "\<exists>a' b'. load_image_to_array stub_library ''a.tif'' (np_zeros [8, 8, 2]) 0 True = Inr a'
     \<and> load_image_to_array stub_library ''b.tif'' (np_zeros [8, 8, 2]) 1 True = Inr b'
     \<and> shape a' = [8, 8, 2]
     \<and> elem a' [1, 0, 1] = 0 \<and> elem a' [1, 0, 0] = 2
     \<and> elem b' [1, 0, 0] = 0 \<and> elem b' [1, 0, 1] = 2
     \<and> {idx. elem a' idx \<noteq> elem (np_zeros [8, 8, 2]) idx}
         \<inter> {idx. elem b' idx \<noteq> elem (np_zeros [8, 8, 2]) idx} = {}"
proof -
  let ?z = "np_zeros [8, 8, 2]"
  let ?f = "[''a.tif'', ''b.tif'']"
  have "\<exists>a'. load_image_to_array stub_library ''a.tif'' ?z 0 True = Inr a'
            \<and> elem a' [1, 0, 0] = 2"
    by (simp add: load_image_to_array_def stub_library_def stub_image_def np_zeros_def
        np_squeeze_def np_transpose_def astype_def setitem_depth_def broadcastable_def
        broadcast_index_def in_bounds_def Let_def)
  then obtain a' where la: "load_image_to_array stub_library ''a.tif'' ?z (int 0) True = Inr a'"
    and va: "elem a' [1, 0, 0] = 2" by auto
  have "\<exists>b'. load_image_to_array stub_library ''b.tif'' ?z 1 True = Inr b'
            \<and> elem b' [1, 0, 1] = 2"
    by (simp add: load_image_to_array_def stub_library_def stub_image_def np_zeros_def
        np_squeeze_def np_transpose_def astype_def setitem_depth_def broadcastable_def
        broadcast_index_def in_bounds_def Let_def)
  then obtain b' where lb: "load_image_to_array stub_library ''b.tif'' ?z (int 1) True = Inr b'"
    and vb: "elem b' [1, 0, 1] = 2" by auto
  have ma: "(0, ''a.tif'') \<in> set (enumerate_list ?f)"
    and mb: "(1, ''b.tif'') \<in> set (enumerate_list ?f)"
    by (simp_all add: enumerate_list_mem)
  have ne: "((0::nat), ''a.tif'') \<noteq> (1, ''b.tif'')" by simp
  note inst_a = load_image_to_array_frame
    [of stub_library "''a.tif''" ?z "int 0" True a' ?f 0 "''a.tif''" 1 "''b.tif''" ?z a' ?z b']
  note inst_b = load_image_to_array_frame
    [of stub_library "''b.tif''" ?z "int 1" True b' ?f 0 "''a.tif''" 1 "''b.tif''" ?z a' ?z b']
  have sa: "shape a' = shape ?z"
    and fa: "\<forall>idx. \<not> (3 \<le> length idx
               \<and> int (idx ! 2) = (if int 0 < 0 then int 0 + int (shape ?z ! 2) else int 0))
           \<longrightarrow> elem a' idx = elem ?z idx"
    using inst_a la by blast+
  have fb: "\<forall>idx. \<not> (3 \<le> length idx
               \<and> int (idx ! 2) = (if int 1 < 0 then int 1 + int (shape ?z ! 2) else int 1))
           \<longrightarrow> elem b' idx = elem ?z idx"
    using inst_b lb by blast
  have disj: "{idx. elem a' idx \<noteq> elem ?z idx} \<inter> {idx. elem b' idx \<noteq> elem ?z idx} = {}"
    using inst_a ma mb ne la lb by blast
  have ua: "elem a' [1, 0, 1] = 0"
    using fa [rule_format, of "[1, 0, 1]"] by (simp add: np_zeros_def)
  have ub: "elem b' [1, 0, 0] = 0"
    using fb [rule_format, of "[1, 0, 0]"] by (simp add: np_zeros_def)
  have sh: "shape a' = [8, 8, 2]" using sa by (simp add: np_zeros_def)
  show ?thesis
    using la lb sh ua va ub vb disj by auto
qed

section \<open>Claims about the writes\<close>

text \<open>
  C3. Let the volume have \<open>M\<close> scales. In the list of the writes that complete, write
  number \<open>p\<close> belongs to batch \<open>i = p div M\<close> and is its write number \<open>j = p mod M\<close>: it
  goes to level \<open>j\<close> (the level of \<open>vol\<close> for \<open>j = 0\<close>, which is 0 for a volume made by
  \<open>create_cloud_volume\<close>), its box is all of X, all of Y and the depth range
  \<open>[16 i, 16 i + len(batch i))\<close>, the same at every level, and its data is the loaded
  block for \<open>j = 0\<close> and entry \<open>j - 1\<close> of the pyramid otherwise. So the writes of one
  batch are consecutive, one per level in increasing order, before any write of the next
  batch; and a run that ends without exception has made all \<open>M\<close> writes of every batch.
\<close>

theorem upload_writes_every_level:
  assumes run: "upload_image_to_volume lib vol files = (log, r)"
    and scales: "info vol = scale0 # others"
  shows "\<exists>bs. chunks files (int CHUNK_SIZE) = Inr bs
     \<and> (r = None \<longrightarrow> length log = length bs * length (info vol))
     \<and> (\<forall>p<length log. p div length (info vol) < length bs
           \<and> level_write_ok lib vol (scale_size scale0) (length (info vol))
                (p div length (info vol)) (bs ! (p div length (info vol)))
                (p mod length (info vol)) (log ! p))
     \<and> mip (snd (create_cloud_volume lib' path img_size voxel_size n)) = 0"
proof -
  let ?bs = "chunks_loop 0 files 16"
  let ?M = "length (info vol)"
  let ?vols = "map (get_vol_at_mip lib (layer_cloudpath vol)) [0..<?M]"
  have M: "0 < ?M" using scales by simp
  have loop: "upload_loop lib vol ?vols (scale_size scale0) ?M (zip [0..<0 + length ?bs] ?bs)
                = (log, r)"
    using run scales
    by (simp add: upload_image_to_volume_def chunks_CHUNK_SIZE Let_def enumerate_list_def)
  note L = upload_loop_log [OF loop refl M]
  have "mip (snd (create_cloud_volume lib' path img_size voxel_size n)) = 0"
    by (simp add: create_cloud_volume_def Let_def)
  then show ?thesis
    using L chunks_CHUNK_SIZE [of files] by (intro exI [of _ ?bs]) simp
qed


theorem upload_writes_every_level_witness:
  "\<exists>log. upload_image_to_volume stub_library (stub_volume 17) (replicate 17 ''a.tif'') = (log, None)
     \<and> length log = 4
     \<and> w_level (log ! 1) = 1 \<and> w_box (log ! 1) = (Full, Full, Range 0 16)
     \<and> w_level (log ! 2) = 0 \<and> w_box (log ! 2) = (Full, Full, Range 16 17)
     \<and> w_level (log ! 3) = 1 \<and> w_box (log ! 3) = (Full, Full, Range 16 17)"
proof -
  let ?files = "replicate 17 ''a.tif''"
  let ?run = "upload_image_to_volume stub_library (stub_volume 17) ?files"
  let ?s0 = "\<lparr>scale_size = [8, 8, 17]\<rparr>"
  have scales: "info (stub_volume 17) = ?s0 # [\<lparr>scale_size = [4, 4, 17]\<rparr>]"
    by (simp add: stub_volume_def)
  have M: "length (info (stub_volume 17)) = 2" by (simp add: stub_volume_def)
  have fit: "\<forall>p\<in>set ?files. slice_fits stub_library (scale_size ?s0) p"
    by (simp add: slice_fits_def stub_defs np_squeeze_def np_transpose_def broadcastable_def)
  have none: "snd ?run = None"
    by (rule upload_complete [where X = 8 and Y = 8 and rest = "[17]", OF scales _ fit])
       (simp_all add: stub_library_def stub_volume_def)
  have run: "?run = (fst ?run, None)" using none by (metis prod.collapse)
  from upload_writes_every_level [OF run scales, of stub_library "''vol''" "[8, 8, 17]" "()" 6]
  obtain bs where bs: "chunks ?files (int CHUNK_SIZE) = Inr bs"
    and len: "None = None \<longrightarrow> length (fst ?run) = length bs * length (info (stub_volume 17))"
    and ok: "\<forall>p<length (fst ?run). p div length (info (stub_volume 17)) < length bs
           \<and> level_write_ok stub_library (stub_volume 17) (scale_size ?s0) (length (info (stub_volume 17)))
                (p div length (info (stub_volume 17))) (bs ! (p div length (info (stub_volume 17))))
                (p mod length (info (stub_volume 17))) (fst ?run ! p)"
    by blast
  have bs_eq: "bs = [replicate 16 ''a.tif'', [''a.tif'']]"
    using bs by (simp add: chunks_CHUNK_SIZE chunks_loop_17)
  have l4: "length (fst ?run) = 4" using len M bs_eq by simp
  have w1: "level_write_ok stub_library (stub_volume 17) (scale_size ?s0) 2 0 (bs ! 0) 1 (fst ?run ! 1)"
    using ok [rule_format, of 1] l4 M by simp
  have w2: "level_write_ok stub_library (stub_volume 17) (scale_size ?s0) 2 1 (bs ! 1) 0 (fst ?run ! 2)"
    using ok [rule_format, of 2] l4 M by simp
  have w3: "level_write_ok stub_library (stub_volume 17) (scale_size ?s0) 2 1 (bs ! 1) 1 (fst ?run ! 3)"
    using ok [rule_format, of 3] l4 M by simp
  have "w_level (fst ?run ! 1) = 1 \<and> w_box (fst ?run ! 1) = (Full, Full, Range 0 16)"
    using w1 bs_eq by (simp add: level_write_ok_def CHUNK_SIZE_def)
  moreover have "w_level (fst ?run ! 2) = 0 \<and> w_box (fst ?run ! 2) = (Full, Full, Range 16 17)"
    using w2 bs_eq by (simp add: level_write_ok_def CHUNK_SIZE_def stub_volume_def)
  moreover have "w_level (fst ?run ! 3) = 1 \<and> w_box (fst ?run ! 3) = (Full, Full, Range 16 17)"
    using w3 bs_eq by (simp add: level_write_ok_def CHUNK_SIZE_def)
  ultimately show ?thesis
    using run l4 by (intro exI [of _ "fst ?run"]) simp
qed


section \<open>Claims about a slice that cannot be loaded\<close>

text \<open>
  C5, as the code has it. Let the volume declare the extents \<open>(X, Y)\<close>. If a file of
  batch \<open>k\<close> cannot be opened, or its squeezed and transposed array has a shape other than
  \<open>(X, Y)\<close>, \<open>(Y,)\<close> and \<open>()\<close>, then the run ends with an exception and every write of
  the log is a write of a batch before \<open>k\<close>, with the depth range of that batch, which
  ends at or before the first depth of batch \<open>k\<close>: nothing is written, at any level, for
  batch \<open>k\<close> or for a later batch. The two shapes left out are those the slice assignment
  broadcasts.
\<close>

theorem unloadable_slice_aborts:
  assumes batches: "chunks files (int CHUNK_SIZE) = Inr bs"
    and k: "k < length bs" and p: "p \<in> set (bs ! k)"
    and scales: "info vol = scale0 # others"
    and size: "scale_size scale0 = X # Y # rest"
    and bad: "image_open lib p = Inl err
       \<or> (image_open lib p = Inr raw
           \<and> shape (np_transpose (np_squeeze raw)) \<notin> {[], [Y], [X, Y]})"
  shows "snd (upload_image_to_volume lib vol files) \<noteq> None
     \<and> (\<forall>w\<in>set (fst (upload_image_to_volume lib vol files)).
           (\<exists>i<k. w_box w = (Full, Full, Range (fst (depth_range i (bs ! i)))
                                             (snd (depth_range i (bs ! i)))))
         \<and> (\<forall>s e. w_box w = (Full, Full, Range s e) \<longrightarrow> e \<le> fst (depth_range k (bs ! k))))"
proof -
  have nofit: "\<not> slice_fits lib (scale_size scale0) p"
  proof (cases "image_open lib p")
    case (Inl e)
    then show ?thesis by (simp add: slice_fits_def)
  next
    case (Inr raw')
    then show ?thesis using bad slice_fits_shapes [OF Inr, of X Y rest] size by auto
  qed
  have bs: "bs = chunks_loop 0 files 16"
    using batches by (simp add: chunks_CHUNK_SIZE)
  have run: "upload_image_to_volume lib vol files
      = upload_loop lib vol (map (get_vol_at_mip lib (layer_cloudpath vol)) [0..<length (info vol)])
          (scale_size scale0) (length (info vol)) (zip [0..<0 + length bs] bs)"
    using scales bs
    by (simp add: upload_image_to_volume_def chunks_CHUNK_SIZE Let_def enumerate_list_def)
  note L = upload_loop_bad [OF k p nofit,
      of vol "map (get_vol_at_mip lib (layer_cloudpath vol)) [0..<length (info vol)]"
         "length (info vol)" 0]
  have err: "snd (upload_image_to_volume lib vol files) \<noteq> None"
    unfolding run using L by blast
  have writes: "(\<exists>i<k. w_box w = (Full, Full, Range (fst (depth_range i (bs ! i)))
                                             (snd (depth_range i (bs ! i)))))
         \<and> (\<forall>s e. w_box w = (Full, Full, Range s e) \<longrightarrow> e \<le> fst (depth_range k (bs ! k)))"
    if w: "w \<in> set (fst (upload_image_to_volume lib vol files))" for w
  proof -
    obtain i where i: "i < k"
      and box: "w_box w = (Full, Full, Range ((0 + i) * CHUNK_SIZE)
                                   ((0 + i) * CHUNK_SIZE + length (bs ! i)))"
      using L w unfolding run by blast
    have box': "w_box w = (Full, Full, Range (fst (depth_range i (bs ! i)))
                                             (snd (depth_range i (bs ! i))))"
      using box by (simp add: depth_range_def)
    have "i < length (chunks_loop 0 files 16)" using i k bs by simp
    then have "length (bs ! i) \<le> 16" using batch_length [of i files] bs by simp
    then have "i * 16 + length (bs ! i) \<le> k * 16" using i by simp
    then have "\<forall>s e. w_box w = (Full, Full, Range s e) \<longrightarrow> e \<le> fst (depth_range k (bs ! k))"
      using box by (simp add: depth_range_def CHUNK_SIZE_def)
    then show ?thesis using i box' by blast
  qed
  show ?thesis using err writes by blast
qed

theorem unloadable_slice_aborts_witness:
  "snd (upload_image_to_volume stub_library (stub_volume 17)
          (replicate 16 ''a.tif'' @ [''missing.tif''])) \<noteq> None
   \<and> w_box ` set (fst (upload_image_to_volume stub_library (stub_volume 17)
                          (replicate 16 ''a.tif'' @ [''missing.tif''])))
       \<subseteq> {(Full, Full, Range 0 16)}
   \<and> upload_image_to_volume stub_library (stub_volume 2) [''a.tif'', ''deep.tif'']
       = ([], Some ValueError)"
proof -
  let ?files = "replicate 16 ''a.tif'' @ [''missing.tif'']"
  let ?bs = "[replicate 16 ''a.tif'', [''missing.tif'']]"
  let ?run = "upload_image_to_volume stub_library (stub_volume 17) ?files"
  have scales: "info (stub_volume 17)
      = \<lparr>scale_size = [8, 8, 17]\<rparr> # [\<lparr>scale_size = [4, 4, 17]\<rparr>]"
    by (simp add: stub_volume_def)
  have size: "scale_size \<lparr>scale_size = [8, 8, 17]\<rparr> = 8 # 8 # [17]" by simp
  have c1: "chunks ?files (int CHUNK_SIZE) = Inr ?bs"
    by (simp add: chunks_CHUNK_SIZE chunks_loop_16_1)
  have k1: "1 < length ?bs" by simp
  have p1: "''missing.tif'' \<in> set (?bs ! 1)" by simp
  have b1: "image_open stub_library ''missing.tif'' = Inl IOError
       \<or> (image_open stub_library ''missing.tif'' = Inr deep_image
           \<and> shape (np_transpose (np_squeeze deep_image)) \<notin> {[], [8], [8, 8]})"
    by (simp add: stub_library_def)
  note T1 = unloadable_slice_aborts [OF c1 k1 p1 scales size b1]
  have r1: "snd ?run \<noteq> None" using T1 by blast
  have w1: "w_box ` set (fst ?run) \<subseteq> {(Full, Full, Range 0 16)}"
  proof (rule image_subsetI)
    fix w assume "w \<in> set (fst ?run)"
    then have "\<exists>i<1. w_box w = (Full, Full, Range (fst (depth_range i (?bs ! i)))
                                             (snd (depth_range i (?bs ! i))))"
      using T1 by blast
    then have "w_box w = (Full, Full, Range (fst (depth_range 0 (?bs ! 0)))
                                             (snd (depth_range 0 (?bs ! 0))))"
      by auto
    then show "w_box w \<in> {(Full, Full, Range 0 16)}"
      by (simp add: depth_range_def CHUNK_SIZE_def)
  qed
  have scales2: "info (stub_volume 2)
      = \<lparr>scale_size = [8, 8, 2]\<rparr> # [\<lparr>scale_size = [4, 4, 2]\<rparr>]"
    by (simp add: stub_volume_def)
  have size2: "scale_size \<lparr>scale_size = [8, 8, 2]\<rparr> = 8 # 8 # [2]" by simp
  have c2: "chunks [''a.tif'', ''deep.tif''] (int CHUNK_SIZE) = Inr [[''a.tif'', ''deep.tif'']]"
    by (simp add: chunks_CHUNK_SIZE chunks_loop_two)
  have k2: "0 < length [[''a.tif'', ''deep.tif'']]" by simp
  have p2: "''deep.tif'' \<in> set ([[''a.tif'', ''deep.tif'']] ! 0)" by simp
  have b2: "image_open stub_library ''deep.tif'' = Inl IOError
       \<or> (image_open stub_library ''deep.tif'' = Inr deep_image
           \<and> shape (np_transpose (np_squeeze deep_image)) \<notin> {[], [8], [8, 8]})"
    by (simp add: stub_defs np_squeeze_def np_transpose_def)
  have r2: "snd (upload_image_to_volume stub_library (stub_volume 2) [''a.tif'', ''deep.tif''])
              \<noteq> None"
    using unloadable_slice_aborts [OF c2 k2 p2 scales2 size2 b2] by blast
  have e2: "upload_image_to_volume stub_library (stub_volume 2) [''a.tif'', ''deep.tif'']
       = ([], Some ValueError)"
    by (simp add: run_defs stub_defs chunks_loop_two)
  show ?thesis using r1 w1 r2 e2 by simp
qed

text \<open>
  C5 as stated does not hold for every shape that disagrees with the declared extents. The
  volume declares X and Y extents \<open>(8, 8)\<close> and two levels, so the pooling accepts its
  blocks. The file \<open>row.tif\<close> decodes to shape \<open>(1, 8)\<close>, squeezed to \<open>(8,)\<close>: the shapes
  disagree (\<open>slice_matches\<close> is false), yet the assignment broadcasts the row over the
  slice, the run ends without exception and the batch is written at both levels, depth
  slice 1 of the block holding the row at every X.
\<close>

theorem shape_mismatch_counterexample:
  "image_open stub_library ''row.tif'' = Inr row_image
   \<and> shape (np_transpose (np_squeeze row_image)) = [8]
   \<and> take 2 (scale_size (hd (info (stub_volume 2)))) = [8, 8]
   \<and> \<not> slice_matches stub_library (scale_size (hd (info (stub_volume 2)))) ''row.tif''
   \<and> snd (upload_image_to_volume stub_library (stub_volume 2) [''a.tif'', ''row.tif'']) = None
   \<and> map w_level (fst (upload_image_to_volume stub_library (stub_volume 2)
                         [''a.tif'', ''row.tif'']))
       = [0, 1]
   \<and> map w_box (fst (upload_image_to_volume stub_library (stub_volume 2)
                       [''a.tif'', ''row.tif'']))
       = [(Full, Full, Range 0 2), (Full, Full, Range 0 2)]
   \<and> shape (w_data (hd (fst (upload_image_to_volume stub_library (stub_volume 2)
                               [''a.tif'', ''row.tif''])))) = [8, 8, 2]
   \<and> shape (w_data (last (fst (upload_image_to_volume stub_library (stub_volume 2)
                                 [''a.tif'', ''row.tif''])))) = [4, 4, 2]
   \<and> map (elem (w_data (hd (fst (upload_image_to_volume stub_library (stub_volume 2)
                                    [''a.tif'', ''row.tif'']))))) 
         [[0, 0, 1], [0, 7, 1], [3, 0, 1], [7, 7, 1]] = [5, 12, 5, 12]"
  by (simp add: run_defs stub_defs chunks_loop_two slice_matches_def)

section \<open>Claims about the chunk grid in depth\<close>

text \<open>
  C9. The chunk shape passed to \<open>create_new_info\<close> is
  \<open>(CHUNK_SIZE*8, CHUNK_SIZE*8, CHUNK_SIZE)\<close> with offset 0, so its depth is the batch
  size 16. Every write of batch \<open>i\<close> has the depth range computed for that batch. For
  batch \<open>k\<close> of a file list that range starts at \<open>k\<close> times the chunk depth, a chunk
  boundary, is not empty, stays within one chunk depth, is exactly one chunk deep unless
  \<open>k\<close> is the last batch, lies entirely in chunk layer \<open>k\<close>, and shares no chunk layer
  with the range of another batch.
\<close>

theorem batches_fill_chunk_layers:
  "chunk_size (info_args img_size voxel_size) = [CHUNK_SIZE * 8, CHUNK_SIZE * 8, CHUNK_SIZE]
   \<and> chunk_size (info_args img_size voxel_size) ! 2 = CHUNK_SIZE
   \<and> CHUNK_SIZE = 16
   \<and> voxel_offset (info_args img_size voxel_size) = [0, 0, 0]
   \<and> hd (fst (create_cloud_volume lib path img_size voxel_size n))
        = NewInfo (info_args img_size voxel_size)
   \<and> (upload_batch lib vol vols size_xyz M i f = (ws, r) \<and> w \<in> set ws \<longrightarrow>
         w_box w = (Full, Full, Range (fst (depth_range i f)) (snd (depth_range i f))))
   \<and> (chunks files (int CHUNK_SIZE) = Inr bs \<and> k < length bs \<longrightarrow>
        (let cz = chunk_size (info_args img_size voxel_size) ! 2;
             start = fst (depth_range k (bs ! k));
             end = snd (depth_range k (bs ! k))
         in start = k * cz \<and> start mod cz = 0 \<and> start < end \<and> end \<le> start + cz
            \<and> (Suc k < length bs \<longrightarrow> end = start + cz)
            \<and> (\<forall>z. start \<le> z \<and> z < end \<longrightarrow> z div cz = k)
            \<and> (\<forall>j<length bs. j \<noteq> k \<longrightarrow>
                  (\<forall>z z'. start \<le> z \<and> z < end
                      \<and> fst (depth_range j (bs ! j)) \<le> z' \<and> z' < snd (depth_range j (bs ! j))
                    \<longrightarrow> z div cz \<noteq> z' div cz))))"
proof -
  have cz: "chunk_size (info_args img_size voxel_size) ! 2 = 16"
    by (simp add: info_args_def CHUNK_SIZE_def)
  have static: "chunk_size (info_args img_size voxel_size)
        = [CHUNK_SIZE * 8, CHUNK_SIZE * 8, CHUNK_SIZE]
   \<and> chunk_size (info_args img_size voxel_size) ! 2 = CHUNK_SIZE
   \<and> CHUNK_SIZE = 16
   \<and> voxel_offset (info_args img_size voxel_size) = [0, 0, 0]
   \<and> hd (fst (create_cloud_volume lib path img_size voxel_size n))
        = NewInfo (info_args img_size voxel_size)"
    by (simp add: info_args_def CHUNK_SIZE_def create_cloud_volume_def Let_def)
  have box: "w_box w = (Full, Full, Range (fst (depth_range i f)) (snd (depth_range i f)))"
    if "upload_batch lib vol vols size_xyz M i f = (ws, r) \<and> w \<in> set ws"
    using upload_batch_box [of lib vol vols size_xyz M i f ws r w] that
    by (simp add: depth_range_def)
  have layers: "fst (depth_range k (bs ! k)) = k * 16
        \<and> fst (depth_range k (bs ! k)) mod 16 = 0
        \<and> fst (depth_range k (bs ! k)) < snd (depth_range k (bs ! k))
        \<and> snd (depth_range k (bs ! k)) \<le> fst (depth_range k (bs ! k)) + 16
        \<and> (Suc k < length bs \<longrightarrow>
              snd (depth_range k (bs ! k)) = fst (depth_range k (bs ! k)) + 16)
        \<and> (\<forall>z. fst (depth_range k (bs ! k)) \<le> z \<and> z < snd (depth_range k (bs ! k))
              \<longrightarrow> z div 16 = k)
        \<and> (\<forall>j<length bs. j \<noteq> k \<longrightarrow>
              (\<forall>z z'. fst (depth_range k (bs ! k)) \<le> z \<and> z < snd (depth_range k (bs ! k))
                   \<and> fst (depth_range j (bs ! j)) \<le> z' \<and> z' < snd (depth_range j (bs ! j))
                 \<longrightarrow> z div 16 \<noteq> z' div 16))"
    if b: "chunks files (int CHUNK_SIZE) = Inr bs \<and> k < length bs"
  proof -
    have bs: "bs = chunks_loop 0 files 16" using b by (simp add: chunks_CHUNK_SIZE)
    have rng: "depth_range j (bs ! j) = (16 * j, min (length files) (16 * j + 16))"
      and inr: "16 * j < length files" if "j < length bs" for j
      using batch_depth_range [of j files] batch_index_in_range [of j files] that bs by simp_all
    have k: "k < length bs" using b by simp
    have full: "snd (depth_range k (bs ! k)) = fst (depth_range k (bs ! k)) + 16"
      if "Suc k < length bs"
    proof -
      have "16 * Suc k < length files" using inr [OF that] .
      then show ?thesis using rng [OF k] by simp
    qed
    have inside: "z div 16 = j"
      if "j < length bs" "fst (depth_range j (bs ! j)) \<le> z" "z < snd (depth_range j (bs ! j))"
      for j z
    proof -
      have "16 * j \<le> z \<and> z < 16 * j + 16" using rng [OF that(1)] that(2,3) by simp
      then show ?thesis by arith
    qed
    have apart: "\<forall>j<length bs. j \<noteq> k \<longrightarrow>
              (\<forall>z z'. fst (depth_range k (bs ! k)) \<le> z \<and> z < snd (depth_range k (bs ! k))
                   \<and> fst (depth_range j (bs ! j)) \<le> z' \<and> z' < snd (depth_range j (bs ! j))
                 \<longrightarrow> z div 16 \<noteq> z' div 16)"
      using inside k by metis
    have basic: "fst (depth_range k (bs ! k)) = k * 16
        \<and> fst (depth_range k (bs ! k)) mod 16 = 0
        \<and> fst (depth_range k (bs ! k)) < snd (depth_range k (bs ! k))
        \<and> snd (depth_range k (bs ! k)) \<le> fst (depth_range k (bs ! k)) + 16"
      using rng [OF k] inr [OF k] by simp
    have "\<forall>z. fst (depth_range k (bs ! k)) \<le> z \<and> z < snd (depth_range k (bs ! k))
              \<longrightarrow> z div 16 = k"
      using inside [OF k] by blast
    then show ?thesis using basic full apart by blast
  qed
  show ?thesis
    unfolding Let_def cz using static box layers unfolding cz by blast
qed


theorem batches_fill_chunk_layers_witness:
  "\<exists>ws. upload_batch stub_library (stub_volume 17)
            (map (get_vol_at_mip stub_library ''vol'') [0..<2]) [8, 8, 17] 2 1 [''a.tif'']
          = (ws, None)
     \<and> map w_box ws = [(Full, Full, Range 16 17), (Full, Full, Range 16 17)]
     \<and> chunks (replicate 17 ''a.tif'') (int CHUNK_SIZE) = Inr [replicate 16 ''a.tif'', [''a.tif'']]
     \<and> depth_range 0 (replicate 16 ''a.tif'') = (0, 16)
     \<and> depth_range 1 [''a.tif''] = (16, 17)
     \<and> (15::nat) div 16 \<noteq> 16 div 16"
proof -
  let ?vols = "map (get_vol_at_mip stub_library ''vol'') [0..<2]"
  let ?bs = "[replicate 16 ''a.tif'', [''a.tif'']]"
  let ?files = "replicate 17 ''a.tif''"
  have "\<exists>ws. upload_batch stub_library (stub_volume 17) ?vols [8, 8, 17] 2 1 [''a.tif''] = (ws, None)
            \<and> length ws = 2"
    by (simp add: run_defs stub_defs upt_rec)
  then obtain ws where ub:
      "upload_batch stub_library (stub_volume 17) ?vols [8, 8, 17] 2 1 [''a.tif''] = (ws, None)"
    and l2: "length ws = 2" by blast
  have c: "chunks ?files (int CHUNK_SIZE) = Inr ?bs"
    by (simp add: chunks_CHUNK_SIZE chunks_loop_17)
  have m0: "ws ! 0 \<in> set ws" and m1: "ws ! 1 \<in> set ws" using l2 by simp_all
  note T0 = batches_fill_chunk_layers
    [of "[8, 8, 17]" "()" stub_library "''vol''" 6 "stub_volume 17" ?vols "[8, 8, 17]" 2 1 "[''a.tif'']"
        ws None "ws ! 0" ?files ?bs 0]
  note T1 = batches_fill_chunk_layers
    [of "[8, 8, 17]" "()" stub_library "''vol''" 6 "stub_volume 17" ?vols "[8, 8, 17]" 2 1 "[''a.tif'']"
        ws None "ws ! 1" ?files ?bs 0]
  have b0: "w_box (ws ! 0)
      = (Full, Full, Range (fst (depth_range 1 [''a.tif''])) (snd (depth_range 1 [''a.tif''])))"
    using T0 ub m0 by blast
  have b1: "w_box (ws ! 1)
      = (Full, Full, Range (fst (depth_range 1 [''a.tif''])) (snd (depth_range 1 [''a.tif''])))"
    using T1 ub m1 by blast
  have k: "0 < length ?bs" and k1: "Suc 0 < length ?bs" and j: "1 < length ?bs" by simp_all
  have L: "let cz = chunk_size (info_args [8, 8, 17] ()) ! 2;
             start = fst (depth_range 0 (?bs ! 0));
             end = snd (depth_range 0 (?bs ! 0))
         in start = 0 * cz \<and> start mod cz = 0 \<and> start < end \<and> end \<le> start + cz
            \<and> (Suc 0 < length ?bs \<longrightarrow> end = start + cz)
            \<and> (\<forall>z. start \<le> z \<and> z < end \<longrightarrow> z div cz = 0)
            \<and> (\<forall>j<length ?bs. j \<noteq> 0 \<longrightarrow>
                  (\<forall>z z'. start \<le> z \<and> z < end
                      \<and> fst (depth_range j (?bs ! j)) \<le> z' \<and> z' < snd (depth_range j (?bs ! j))
                    \<longrightarrow> z div cz \<noteq> z' div cz))"
    using T0 c k by blast
  have cz: "chunk_size (info_args [8, 8, 17] ()) ! 2 = 16"
    using T0 by simp
  have d0: "depth_range 0 (replicate 16 ''a.tif'') = (0, 16)"
    using L k1 unfolding Let_def cz by (simp add: prod_eq_iff)
  have d1: "depth_range 1 [''a.tif''] = (16, 17)"
    by (simp add: depth_range_def CHUNK_SIZE_def)
  have A: "\<forall>j<length ?bs. j \<noteq> 0 \<longrightarrow>
                  (\<forall>z z'. fst (depth_range 0 (?bs ! 0)) \<le> z \<and> z < snd (depth_range 0 (?bs ! 0))
                      \<and> fst (depth_range j (?bs ! j)) \<le> z' \<and> z' < snd (depth_range j (?bs ! j))
                    \<longrightarrow> z div 16 \<noteq> z' div 16)"
    using L unfolding Let_def cz by blast
  have apart: "(15::nat) div 16 \<noteq> 16 div 16"
    using A [rule_format, of 1 15 16] d0 d1 by simp
  have boxes: "map w_box ws = [(Full, Full, Range 16 17), (Full, Full, Range 16 17)]"
    using b0 b1 d1 l2 by (simp add: list_eq_iff_nth_eq nth_Cons' less_Suc_eq numeral_2_eq_2)
  show ?thesis
    using ub boxes c d0 d1 apart by (intro exI [of _ ws]) simp
qed


section \<open>Claims about the extents read from the first file\<close>

text \<open>
  C10, as the code has it. \<open>load_image\<close> returns the decoded image, in the dtype of the
  file, without its axes of length 1, transposed when asked. A file that decodes to \<open>(X, Y, 1)\<close> or \<open>(1, X, Y)\<close>, with \<open>X\<close> and \<open>Y\<close>
  other than 1, is therefore a 2D slice of shape \<open>(X, Y)\<close> with the same samples.
  \<open>get_image_dims\<close> raises ValueError when the squeezed array of the first file has not
  exactly two axes, and then \<open>main\<close> ends with that exception before any call that creates
  the schema or writes; the same holds for every exception of \<open>get_image_dims\<close>. When it
  returns, the extents are those of the transposed squeezed first slice, followed by the
  number of files.
\<close>

theorem get_image_dims_squeezed:
  "(image_open lib p = Inr raw \<longrightarrow>
       load_image lib p False = Inr (np_squeeze raw)
     \<and> load_image lib p True = Inr (np_transpose (np_squeeze raw))
     \<and> shape (np_squeeze raw) = filter (\<lambda>d. d \<noteq> 1) (shape raw)
     \<and> 1 \<notin> set (shape (np_squeeze raw)))
   \<and> (image_open lib p = Inr raw \<and> X \<noteq> 1 \<and> Y \<noteq> 1
        \<and> (shape raw = [X, Y, 1] \<or> shape raw = [1, X, Y]) \<longrightarrow>
       shape (np_squeeze raw) = [X, Y]
     \<and> elem (np_squeeze raw) [x, y]
          = (if shape raw = [X, Y, 1] then elem raw [x, y, 0] else elem raw [0, x, y])
     \<and> get_image_dims lib (p # rest) = Inr [Y, X, Suc (length rest)])
   \<and> (image_open lib p = Inr raw \<and> length (shape (np_squeeze raw)) \<noteq> 2 \<longrightarrow>
       get_image_dims lib (p # rest) = Inl ValueError
     \<and> main lib (p # rest) voxel_dims path = ([], Some ValueError))
   \<and> (get_image_dims lib files = Inl e \<longrightarrow> main lib files voxel_dims path = ([], Some e))
   \<and> (get_image_dims lib files = Inr dims \<longrightarrow>
        (\<exists>first others raw0 a b. files = first # others \<and> image_open lib first = Inr raw0
           \<and> shape (np_squeeze raw0) = [a, b]
           \<and> shape (np_transpose (np_squeeze raw0)) = [b, a]
           \<and> dims = [b, a, length files]))"
proof -
  have one: "load_image lib p False = Inr (np_squeeze raw)
     \<and> load_image lib p True = Inr (np_transpose (np_squeeze raw))
     \<and> shape (np_squeeze raw) = filter (\<lambda>d. d \<noteq> 1) (shape raw)
     \<and> 1 \<notin> set (shape (np_squeeze raw))"
    if "image_open lib p = Inr raw"
    using that by (simp add: load_image_Inr np_squeeze_shape)
  have two: "shape (np_squeeze raw) = [X, Y]
     \<and> elem (np_squeeze raw) [x, y]
          = (if shape raw = [X, Y, 1] then elem raw [x, y, 0] else elem raw [0, x, y])
     \<and> get_image_dims lib (p # rest) = Inr [Y, X, Suc (length rest)]"
    if h: "image_open lib p = Inr raw \<and> X \<noteq> 1 \<and> Y \<noteq> 1
        \<and> (shape raw = [X, Y, 1] \<or> shape raw = [1, X, Y])"
  proof -
    have f: "filter (\<lambda>d. d \<noteq> 1) (shape raw) = [X, Y]" using h by auto
    have d: "get_image_dims lib (p # rest) = Inr [Y, X, Suc (length rest)]"
      using get_image_dims_two [OF _ f] h by blast
    have e: "elem (np_squeeze raw) [x, y]
          = (if shape raw = [X, Y, 1] then elem raw [x, y, 0] else elem raw [0, x, y])"
      using h np_squeeze_elem_last [of raw X Y x y] np_squeeze_elem_first [of raw X Y x y]
      by auto
    show ?thesis using f d e by (simp add: np_squeeze_shape)
  qed
  have three: "get_image_dims lib (p # rest) = Inl ValueError
     \<and> main lib (p # rest) voxel_dims path = ([], Some ValueError)"
    if h: "image_open lib p = Inr raw \<and> length (shape (np_squeeze raw)) \<noteq> 2"
  proof -
    have "length (filter (\<lambda>d. d \<noteq> 1) (shape raw)) \<noteq> 2"
      using h by (simp add: np_squeeze_shape)
    then have "get_image_dims lib (p # rest) = Inl ValueError"
      using get_image_dims_not_two h by blast
    then show ?thesis using main_dims_error by blast
  qed
  have four: "main lib files voxel_dims path = ([], Some e)"
    if "get_image_dims lib files = Inl e"
    using that by (rule main_dims_error)
  have five: "\<exists>first others raw0 a b. files = first # others \<and> image_open lib first = Inr raw0
           \<and> shape (np_squeeze raw0) = [a, b]
           \<and> shape (np_transpose (np_squeeze raw0)) = [b, a]
           \<and> dims = [b, a, length files]"
    if h: "get_image_dims lib files = Inr dims"
  proof -
    obtain q others raw0 a b where "files = q # others" "image_open lib q = Inr raw0"
      "filter (\<lambda>d. d \<noteq> 1) (shape raw0) = [a, b]" "dims = [b, a, length files]"
      using get_image_dims_Inr [OF h] by blast
    then show ?thesis
      by (auto simp: np_squeeze_shape np_transpose_def)
  qed
  show ?thesis using one two three four five by blast
qed

theorem get_image_dims_squeezed_witness:
  "load_image stub_library ''a.tif'' True = Inr (np_transpose (np_squeeze stub_image))
   \<and> shape (np_squeeze deep_image) = [8, 9]
   \<and> elem (np_squeeze deep_image) [1, 2] = elem deep_image [1, 2, 0]
   \<and> get_image_dims stub_library [''deep.tif'', ''a.tif''] = Inr [9, 8, 2]
   \<and> get_image_dims stub_library [''row.tif'', ''a.tif''] = Inl ValueError
   \<and> main stub_library [''row.tif'', ''a.tif''] (Inr ()) ''vol'' = ([], Some ValueError)
   \<and> main stub_library [] (Inr ()) ''vol'' = ([], Some IndexError)
   \<and> get_image_dims stub_library [''a.tif'', ''b.tif''] = Inr [8, 8, 2]"
proof -
  have oa: "image_open stub_library ''a.tif'' = Inr stub_image"
    and od: "image_open stub_library ''deep.tif'' = Inr deep_image"
    and orow: "image_open stub_library ''row.tif'' = Inr row_image"
    by (simp_all add: stub_library_def)
  note Ta = get_image_dims_squeezed
    [of stub_library "''a.tif''" stub_image 8 8 0 0 "[''b.tif'']" "Inr ()" "''vol''"
        "[''a.tif'', ''b.tif'']" IndexError "[8, 8, 2]"]
  note Td = get_image_dims_squeezed
    [of stub_library "''deep.tif''" deep_image 8 9 1 2 "[''a.tif'']" "Inr ()" "''vol''"
        "[]" IndexError "[8, 8, 2]"]
  note Tr = get_image_dims_squeezed
    [of stub_library "''row.tif''" row_image 8 8 0 0 "[''a.tif'']" "Inr ()" "''vol''"
        "[]" IndexError "[8, 8, 2]"]
  have w1: "load_image stub_library ''a.tif'' True = Inr (np_transpose (np_squeeze stub_image))"
    using Ta oa by blast
  have hd: "image_open stub_library ''deep.tif'' = Inr deep_image \<and> (8::nat) \<noteq> 1 \<and> (9::nat) \<noteq> 1
        \<and> (shape deep_image = [8, 9, 1] \<or> shape deep_image = [1, 8, 9])"
    using od by (simp add: deep_image_def)
  have w2: "shape (np_squeeze deep_image) = [8, 9]
     \<and> elem (np_squeeze deep_image) [1, 2]
          = (if shape deep_image = [8, 9, 1] then elem deep_image [1, 2, 0]
             else elem deep_image [0, 1, 2])
     \<and> get_image_dims stub_library (''deep.tif'' # [''a.tif'']) = Inr [9, 8, Suc (length [''a.tif''])]"
    using Td hd by blast
  have hr: "image_open stub_library ''row.tif'' = Inr row_image
        \<and> length (shape (np_squeeze row_image)) \<noteq> 2"
    using orow by (simp add: row_image_def np_squeeze_def)
  have w3: "get_image_dims stub_library (''row.tif'' # [''a.tif'']) = Inl ValueError
     \<and> main stub_library (''row.tif'' # [''a.tif'']) (Inr ()) ''vol'' = ([], Some ValueError)"
    using Tr hr by blast
  have he: "get_image_dims stub_library [] = Inl IndexError"
    by (simp add: get_image_dims_def)
  have w4: "main stub_library [] (Inr ()) ''vol'' = ([], Some IndexError)"
    using Tr he by blast
  have w5: "get_image_dims stub_library [''a.tif'', ''b.tif''] = Inr [8, 8, 2]"
    by (simp add: get_image_dims_def load_image_def stub_library_def stub_image_def
        np_squeeze_def np_transpose_def)
  have w6: "\<exists>first others raw0 a b. [''a.tif'', ''b.tif''] = first # others
           \<and> image_open stub_library first = Inr raw0
           \<and> shape (np_squeeze raw0) = [a, b]
           \<and> shape (np_transpose (np_squeeze raw0)) = [b, a]
           \<and> [8, 8, 2] = [b, a, length [''a.tif'', ''b.tif'']]"
    using Ta w5 by blast
  show ?thesis
    using w1 w2 w3 w4 w5 w6 by (simp add: deep_image_def)
qed

text \<open>
  C10 as stated does not hold when one of the two extents is itself 1. The file
  \<open>thin.tif\<close> decodes to shape \<open>(1, 5, 1)\<close>, which is \<open>(X, Y, 1)\<close> for \<open>X = 1\<close>, \<open>Y = 5\<close>
  and \<open>(1, X, Y)\<close> for \<open>X = 5\<close>, \<open>Y = 1\<close>. Squeezing removes both axes of length 1 and
  leaves shape \<open>(5,)\<close>: the file is not taken as a 2D slice, \<open>get_image_dims\<close> raises
  ValueError and \<open>main\<close> ends there.
\<close>

theorem singleton_extent_counterexample:
  "image_open stub_library ''thin.tif'' = Inr thin_image
   \<and> shape thin_image = [1, 5, 1]
   \<and> shape (np_squeeze thin_image) = [5]
   \<and> load_image stub_library ''thin.tif'' True = Inr (np_transpose (np_squeeze thin_image))
   \<and> get_image_dims stub_library [''thin.tif''] = Inl ValueError
   \<and> main stub_library [''thin.tif''] (Inr ()) ''vol'' = ([], Some ValueError)"
  by (simp add: stub_library_def thin_image_def np_squeeze_def np_transpose_def
      load_image_def get_image_dims_def main_def)

end
